(* ===== verification/Grouper_Prelude.thy ===== *)
theory Grouper_Prelude
  imports Complex_Main
begin

text \<open>
  Shared material of the development: the type of results of code that may
  raise, the
  \<open>for\<close> loop of the source as a combinator over a body that may raise,
  and the facts about lists (\<open>concat\<close>, \<open>sum_list\<close>, \<open>butlast\<close>) that the
  component proofs share.
\<close>

section \<open>Results of code that may raise\<close>

text \<open>
  A Python call either returns or raises. What it raises is the left
  summand, what it returns the right one. \<open>'e\<close> is the exception together
  with whatever the caller can still observe after it.
\<close>

type_synonym ('e, 'a) result = "'e + 'a"

abbreviation Raise :: "'e \<Rightarrow> ('e, 'a) result" where
  "Raise \<equiv> Inl"

abbreviation Return :: "'a \<Rightarrow> ('e, 'a) result" where
  "Return \<equiv> Inr"

definition returns :: "('e, 'a) result \<Rightarrow> bool" where
  "returns r = (case r of Inl _ \<Rightarrow> False | Inr _ \<Rightarrow> True)"

section \<open>The for loop over a body that may raise\<close>

text \<open>
  \<^verbatim>\<open>for x in xs: body\<close> over a state \<open>s\<close>: the body runs on each element in
  order, and the first exception ends the loop with that exception.
\<close>

fun for_each :: "('s \<Rightarrow> 'a \<Rightarrow> ('e, 's) result) \<Rightarrow> 's \<Rightarrow> 'a list \<Rightarrow> ('e, 's) result" where
  "for_each body s [] = Inr s"
| "for_each body s (x # xs) =
     (case body s x of Inl e \<Rightarrow> Inl e | Inr s' \<Rightarrow> for_each body s' xs)"

section \<open>Facts about results\<close>

lemma returns_simps [simp]:
  "returns (Inr x)" "\<not> returns (Inl e)"
  by (simp_all add: returns_def)

lemma returns_iff: "returns r \<longleftrightarrow> (\<exists>x. r = Inr x)"
  by (cases r) simp_all

section \<open>Facts about the for loop\<close>

lemma for_each_append:
  "for_each body s (xs @ ys) =
     (case for_each body s xs of Inl e \<Rightarrow> Inl e | Inr s' \<Rightarrow> for_each body s' ys)"
  by (induction xs arbitrary: s) (auto split: sum.splits)

lemma for_each_snoc:
  "for_each body s (xs @ [x]) =
     (case for_each body s xs of Inl e \<Rightarrow> Inl e | Inr s' \<Rightarrow> body s' x)"
  by (simp add: for_each_append split: sum.splits)

text \<open>
  The invariant rule of the loop: what holds before the loop and is kept by
  every iteration that returns holds after a loop that returns.
\<close>

lemma for_each_invariant:
  assumes "for_each body s xs = Inr t"
    and "I s"
    and "\<And>s x s'. I s \<Longrightarrow> x \<in> set xs \<Longrightarrow> body s x = Inr s' \<Longrightarrow> I s'"
  shows "I t"
  using assms
proof (induction xs arbitrary: s)
  case Nil
  then show ?case by simp
next
  case (Cons x xs)
  from Cons.prems(1) obtain s' where b: "body s x = Inr s'" and r: "for_each body s' xs = Inr t"
    by (auto split: sum.splits)
  have "I s'"
    by (rule Cons.prems(3) [OF Cons.prems(2) _ b]) simp
  with r show ?case
    by (rule Cons.IH) (auto intro: Cons.prems(3))
qed

text \<open>
  A loop returns exactly when its body returns on every element, if whether
  the body returns depends on the element only.
\<close>

lemma for_each_returns_iff:
  assumes "\<And>s x. returns (body s x) \<longleftrightarrow> P x"
  shows "returns (for_each body s xs) \<longleftrightarrow> list_all P xs"
proof (induction xs arbitrary: s)
  case Nil
  show ?case by simp
next
  case (Cons x xs)
  show ?case
  proof (cases "body s x")
    case (Inl e)
    with assms [of s x] show ?thesis by simp
  next
    case (Inr s')
    with assms [of s x] Cons.IH [of s'] show ?thesis by simp
  qed
qed

text \<open>A loop that raises ran on a prefix of the list and raised on the next element.\<close>

lemma for_each_error:
  assumes "for_each body s xs = Inl e"
  shows "\<exists>pre x post s'. xs = pre @ x # post \<and> for_each body s pre = Inr s' \<and> body s' x = Inl e"
  using assms
proof (induction xs arbitrary: s)
  case Nil
  then show ?case by simp
next
  case (Cons x xs)
  show ?case
  proof (cases "body s x")
    case (Inl e')
    with Cons.prems have "x # xs = [] @ x # xs \<and> for_each body s [] = Inr s \<and> body s x = Inl e"
      by simp
    then show ?thesis by blast
  next
    case (Inr s1)
    with Cons.prems have "for_each body s1 xs = Inl e" by simp
    then obtain pre y post s' where "xs = pre @ y # post" "for_each body s1 pre = Inr s'"
      "body s' y = Inl e"
      using Cons.IH by blast
    with Inr have "x # xs = (x # pre) @ y # post \<and> for_each body s (x # pre) = Inr s' \<and> body s' y = Inl e"
      by simp
    then show ?thesis by blast
  qed
qed

text \<open>Two bodies that agree on the elements of the list run the same loop.\<close>

lemma for_each_cong:
  assumes "\<And>s x. x \<in> set xs \<Longrightarrow> body s x = body' s x"
  shows "for_each body s xs = for_each body' s xs"
  using assms by (induction xs arbitrary: s) (auto split: sum.splits)

section \<open>Lists of lists\<close>

lemma all_le_Suc:
  "(\<forall>k. a \<le> k \<and> k \<le> Suc n \<longrightarrow> P k) \<longleftrightarrow>
     (\<forall>k. a \<le> k \<and> k \<le> n \<longrightarrow> P k) \<and> (a \<le> Suc n \<longrightarrow> P (Suc n))"
  by (auto simp: le_Suc_eq)

lemma length_concat_ge:
  assumes "\<forall>xs \<in> set xss. xs \<noteq> []"
  shows "length xss \<le> length (concat xss)"
  using assms
proof (induction xss)
  case Nil
  then show ?case by simp
next
  case (Cons xs xss)
  then show ?case by (cases xs) auto
qed

lemma concat_eq_Nil_nonempty:
  assumes "\<forall>xs \<in> set xss. xs \<noteq> []" and "concat xss = []"
  shows "xss = []"
  using assms by (cases xss) auto

end
