(* ===== verification/Py_Values.thy ===== *)
theory Py_Values
  imports Grouper_Prelude
begin

text \<open>
  The Python values that \<^verbatim>\<open>src/bin/data_grouper.py\<close> computes with, and the
  three operations it applies to them: \<^verbatim>\<open>+\<close> on the running size and a cell
  of the \<^verbatim>\<open>Size\<close> column (lines 32 and 39), \<^verbatim>\<open>>\<close> between that sum and the
  limit (line 32), and \<^verbatim>\<open>*\<close> of the \<^verbatim>\<open>--limit_tb\<close> float with \<^verbatim>\<open>1024**4\<close>
  (line 22).

  \<^item> A cell of the \<^verbatim>\<open>Size\<close> column is a number or a string (\<open>cell\<close>).
    \<^verbatim>\<open>read_csv\<close> yields a number for a numeric field, \<^verbatim>\<open>nan\<close> for an empty
    one and the text itself for a field that is not a number.
  \<^item> A number is an integer value or \<^verbatim>\<open>nan\<close> (\<open>pynum\<close>). \<open>PyInt i\<close> stands
    for the Python \<^verbatim>\<open>int\<close> \<open>i\<close> and for the float of the same value, which a
    column with an empty field holds; the model is exact for floats as long
    as every sum stays below \<open>2 ^ 53\<close>, where float addition of integer
    values is exact. Fractional sizes are outside the model.
  \<^item> The limit is a float (\<open>pyfloat\<close>): a finite value, an infinity or
    \<^verbatim>\<open>nan\<close>; \<^verbatim>\<open>argparse\<close> with \<^verbatim>\<open>type=float\<close> accepts all of them.
    Finite values are rationals: every double is one, so what is proved for
    all rationals holds for all doubles.
\<close>

section \<open>Values\<close>

datatype py_error = TypeError

datatype pynum = PyInt int | PyNaN

datatype cell = NumCell pynum | StrCell string

datatype pyfloat = Finite rat | PosInf | NegInf | NaN

section \<open>Addition of the running size and a cell\<close>

text \<open>\<^verbatim>\<open>nan\<close> absorbs every number; an \<^verbatim>\<open>int\<close> plus an \<^verbatim>\<open>int\<close> never overflows.\<close>

fun num_add :: "pynum \<Rightarrow> pynum \<Rightarrow> pynum" where
  "num_add (PyInt a) (PyInt b) = PyInt (a + b)"
| "num_add _ _ = PyNaN"

text \<open>
  With this addition and \<open>PyInt 0\<close> the numbers are a commutative monoid, so
  the library's \<open>sum_list\<close> adds up a column of sizes.
\<close>

instantiation pynum :: comm_monoid_add
begin

definition zero_pynum :: pynum where
  "zero_pynum = PyInt 0"

definition plus_pynum :: "pynum \<Rightarrow> pynum \<Rightarrow> pynum" where
  "plus_pynum = num_add"

instance
proof
  fix a b c :: pynum
  show "a + b + c = a + (b + c)"
    by (cases a; cases b; cases c) (simp_all add: plus_pynum_def)
  show "a + b = b + a"
    by (cases a; cases b) (simp_all add: plus_pynum_def)
  show "0 + a = a"
    by (cases a) (simp_all add: plus_pynum_def zero_pynum_def)
qed

end

text \<open>
  The left operand is \<^verbatim>\<open>current_size\<close>, always a number. A number plus a
  \<^verbatim>\<open>str\<close> raises \<^verbatim>\<open>TypeError\<close>.
\<close>

fun py_add :: "pynum \<Rightarrow> cell \<Rightarrow> (py_error, pynum) result" where
  "py_add a (NumCell b) = Inr (a + b)"
| "py_add a (StrCell s) = Inl TypeError"

section \<open>Comparison with the limit\<close>

text \<open>
  \<^verbatim>\<open>x > limit\<close> for a number \<open>x\<close> and a float. Python compares an \<^verbatim>\<open>int\<close> with
  a finite float by value, without rounding the \<^verbatim>\<open>int\<close>; every comparison
  with \<^verbatim>\<open>nan\<close> is false.
\<close>

fun py_gt :: "pynum \<Rightarrow> pyfloat \<Rightarrow> bool" where
  "py_gt (PyInt a) (Finite r) = (r < of_int a)"
| "py_gt (PyInt a) NegInf = True"
| "py_gt _ _ = False"

section \<open>Scaling a float by a power of two\<close>

text \<open>
  The largest finite double is \<open>(2 ^ 53 - 1) * 2 ^ 971\<close>. The product of a
  double and a power of two has the significand of the double, so it is
  exact when its magnitude is at most this value, and an infinity otherwise.
\<close>

definition max_double :: rat where
  "max_double = (2 ^ 53 - 1) * 2 ^ 971"

fun scale_pow2 :: "pyfloat \<Rightarrow> nat \<Rightarrow> pyfloat" where
  "scale_pow2 (Finite r) k =
     (if max_double < r * 2 ^ k then PosInf
      else if r * 2 ^ k < - max_double then NegInf
      else Finite (r * 2 ^ k))"
| "scale_pow2 x k = x"

section \<open>Which cells are sizes\<close>

fun is_int_cell :: "cell \<Rightarrow> bool" where
  "is_int_cell (NumCell (PyInt i)) = True"
| "is_int_cell _ = False"

fun is_num_cell :: "cell \<Rightarrow> bool" where
  "is_num_cell (NumCell n) = True"
| "is_num_cell (StrCell s) = False"

fun int_of_cell :: "cell \<Rightarrow> int" where
  "int_of_cell (NumCell (PyInt i)) = i"
| "int_of_cell _ = 0"

fun num_of_cell :: "cell \<Rightarrow> pynum" where
  "num_of_cell (NumCell n) = n"
| "num_of_cell (StrCell s) = PyNaN"

section \<open>Facts\<close>

lemma plus_pynum_simps [simp]:
  "PyInt a + PyInt b = PyInt (a + b)"
  "PyNaN + n = PyNaN"
  "n + PyNaN = PyNaN"
  by (cases n; simp add: plus_pynum_def)+

lemma PyInt_0_add [simp]: "PyInt 0 + n = n" "n + PyInt 0 = n"
  by (cases n; simp)+

lemma py_gt_NaN [simp]: "\<not> py_gt PyNaN f" "\<not> py_gt a NaN" "\<not> py_gt a PosInf"
  by (cases a; simp)+

lemma is_int_cell_iff: "is_int_cell c \<longleftrightarrow> (\<exists>i. c = NumCell (PyInt i))"
  by (cases c rule: is_int_cell.cases) simp_all

lemma is_int_cell_eq: "is_int_cell c \<Longrightarrow> c = NumCell (PyInt (int_of_cell c))"
  by (auto simp: is_int_cell_iff)

lemma is_num_cell_iff: "is_num_cell c \<longleftrightarrow> (\<exists>n. c = NumCell n)"
  by (cases c) simp_all

lemma is_int_cell_num [simp]: "is_int_cell c \<Longrightarrow> is_num_cell c"
  by (auto simp: is_int_cell_iff)

lemma is_int_cell_num_of: "is_int_cell c \<Longrightarrow> num_of_cell c = PyInt (int_of_cell c)"
  by (auto simp: is_int_cell_iff)

lemma py_add_num [simp]: "is_num_cell c \<Longrightarrow> py_add a c = Inr (a + num_of_cell c)"
  by (auto simp: is_num_cell_iff)

lemma py_add_returns_iff: "returns (py_add a c) \<longleftrightarrow> is_num_cell c"
  by (cases c) simp_all

lemma py_add_int [simp]:
  "is_int_cell c \<Longrightarrow> py_add (PyInt a) c = Inr (PyInt (a + int_of_cell c))"
  by (auto simp: is_int_cell_iff)

lemma py_add_error_iff: "py_add a c = Inl e \<longleftrightarrow> e = TypeError \<and> \<not> is_num_cell c"
  by (cases c) auto

text \<open>Scaling is exact inside the range of the doubles.\<close>

lemma scale_pow2_exact:
  assumes "\<bar>r * 2 ^ k\<bar> \<le> max_double"
  shows "scale_pow2 (Finite r) k = Finite (r * 2 ^ k)"
  using assms by auto

lemma scale_pow2_overflow:
  assumes "max_double < r * 2 ^ k"
  shows "scale_pow2 (Finite r) k = PosInf"
  using assms by simp

lemma max_double_pos: "0 < max_double"
  by (simp add: max_double_def)

end
