(* ===== verification/Manifest.thy ===== *)
theory Manifest
  imports Py_Values
begin

text \<open>
  The data that \<^verbatim>\<open>main\<close> of \<^verbatim>\<open>src/bin/data_grouper.py\<close> starts from: the
  parsed command line (lines 7 to 11), the rows of the results table as
  \<^verbatim>\<open>read_csv\<close> names their columns (line 14), and the limit in bytes
  (line 22). Reading the table is input: the model takes the rows as given.
\<close>

section \<open>Rows and arguments\<close>

text \<open>
  One row of the data frame, with the columns
  \<^verbatim>\<open>names=['Absolute Path', 'Size', 'MD5 Value']\<close>. The path and the digest
  are text the grouper never looks at; the size is a cell.
\<close>

record row =
  absolute_path :: string
  file_size :: cell
  md5_value :: string

text \<open>
  The namespace \<^verbatim>\<open>parse_args\<close> returns: \<^verbatim>\<open>--results\<close> is required,
  \<^verbatim>\<open>--limit_tb\<close> is a float with default \<^verbatim>\<open>11.0\<close>, \<^verbatim>\<open>--prefix\<close> a string
  with default \<^verbatim>\<open>result\<close>.
\<close>

record args =
  results :: string
  limit_tb :: pyfloat
  out_prefix :: string

definition default_args :: "string \<Rightarrow> args" where
  "default_args r = \<lparr>results = r, limit_tb = Finite 11, out_prefix = ''result''\<rparr>"

text \<open>\<^verbatim>\<open>limit_bytes = args.limit_tb * (1024**4)\<close>, and \<open>1024 ^ 4 = 2 ^ 40\<close>.\<close>

definition limit_bytes :: "args \<Rightarrow> pyfloat" where
  "limit_bytes a = scale_pow2 (limit_tb a) 40"

section \<open>Well-formed manifests\<close>

text \<open>
  The sizes of a manifest whose \<^verbatim>\<open>Size\<close> column holds integers, and the
  manifests the specification admits: every size a non-negative integer.
\<close>

definition row_num :: "row \<Rightarrow> pynum" where
  "row_num r = num_of_cell (file_size r)"

definition row_size :: "row \<Rightarrow> int" where
  "row_size r = int_of_cell (file_size r)"

definition total_size :: "row list \<Rightarrow> int" where
  "total_size rs = sum_list (map row_size rs)"

definition int_rows :: "row list \<Rightarrow> bool" where
  "int_rows rs = list_all (\<lambda>r. is_int_cell (file_size r)) rs"

definition num_rows :: "row list \<Rightarrow> bool" where
  "num_rows rs = list_all (\<lambda>r. is_num_cell (file_size r)) rs"

definition valid_rows :: "row list \<Rightarrow> bool" where
  "valid_rows rs = list_all (\<lambda>r. is_int_cell (file_size r) \<and> 0 \<le> row_size r) rs"

section \<open>Sample data\<close>

text \<open>
  A row with an integer size, a row with an empty size, a row whose size is
  text, and the arguments whose limit is \<open>L\<close> bytes, for the instances of the
  theorems.
\<close>

definition mk_row :: "string \<Rightarrow> int \<Rightarrow> row" where
  "mk_row p n = \<lparr>absolute_path = p, file_size = NumCell (PyInt n), md5_value = []\<rparr>"

definition nan_row :: "string \<Rightarrow> row" where
  "nan_row p = \<lparr>absolute_path = p, file_size = NumCell PyNaN, md5_value = []\<rparr>"

definition str_row :: "string \<Rightarrow> string \<Rightarrow> row" where
  "str_row p t = \<lparr>absolute_path = p, file_size = StrCell t, md5_value = []\<rparr>"

definition bytes_args :: "rat \<Rightarrow> args" where
  "bytes_args L = \<lparr>results = ''results.csv'', limit_tb = Finite (L / 2 ^ 40), out_prefix = ''result''\<rparr>"

section \<open>Facts\<close>

lemma limit_bytes_default [simp]:
  "limit_bytes (default_args r) = Finite 12094627905536"
  by (simp add: limit_bytes_def default_args_def max_double_def)

lemma limit_bytes_bytes_args [simp]:
  "\<bar>L\<bar> \<le> max_double \<Longrightarrow> limit_bytes (bytes_args L) = Finite L"
  by (simp add: limit_bytes_def bytes_args_def scale_pow2_exact del: scale_pow2.simps)

lemma out_prefix_bytes_args [simp]: "out_prefix (bytes_args L) = ''result''"
  by (simp add: bytes_args_def)

lemma total_size_simps [simp]:
  "total_size [] = 0"
  "total_size (r # rs) = row_size r + total_size rs"
  "total_size (rs @ rs') = total_size rs + total_size rs'"
  by (simp_all add: total_size_def)

lemma int_rows_simps [simp]:
  "int_rows []"
  "int_rows (r # rs) \<longleftrightarrow> is_int_cell (file_size r) \<and> int_rows rs"
  "int_rows (rs @ rs') \<longleftrightarrow> int_rows rs \<and> int_rows rs'"
  by (simp_all add: int_rows_def)

lemma num_rows_simps [simp]:
  "num_rows []"
  "num_rows (r # rs) \<longleftrightarrow> is_num_cell (file_size r) \<and> num_rows rs"
  "num_rows (rs @ rs') \<longleftrightarrow> num_rows rs \<and> num_rows rs'"
  by (simp_all add: num_rows_def)

lemma valid_rows_simps [simp]:
  "valid_rows []"
  "valid_rows (r # rs) \<longleftrightarrow> is_int_cell (file_size r) \<and> 0 \<le> row_size r \<and> valid_rows rs"
  "valid_rows (rs @ rs') \<longleftrightarrow> valid_rows rs \<and> valid_rows rs'"
  by (simp_all add: valid_rows_def)

lemma valid_rows_int [simp]: "valid_rows rs \<Longrightarrow> int_rows rs"
  by (induction rs) simp_all

lemma int_rows_num [simp]: "int_rows rs \<Longrightarrow> num_rows rs"
  by (induction rs) simp_all

lemma int_rows_mem: "int_rows rs \<Longrightarrow> r \<in> set rs \<Longrightarrow> is_int_cell (file_size r)"
  by (simp add: int_rows_def list_all_iff)

lemma valid_rows_total_nonneg: "valid_rows rs \<Longrightarrow> 0 \<le> total_size rs"
  by (induction rs) simp_all

lemma int_row_num: "is_int_cell (file_size r) \<Longrightarrow> row_num r = PyInt (row_size r)"
  by (simp add: row_num_def row_size_def is_int_cell_num_of)

lemma valid_rows_mem_le_total:
  assumes "valid_rows g" and "r \<in> set g"
  shows "row_size r \<le> total_size g"
  using assms
proof (induction g)
  case Nil
  then show ?case by simp
next
  case (Cons x g)
  then show ?case
    using valid_rows_total_nonneg [of g] by auto
qed

lemma valid_rows_subset: "valid_rows df \<Longrightarrow> set g \<subseteq> set df \<Longrightarrow> valid_rows g"
  by (auto simp: valid_rows_def list_all_iff)

lemma sample_row_simps [simp]:
  "file_size (mk_row p n) = NumCell (PyInt n)"
  "row_size (mk_row p n) = n"
  "row_num (mk_row p n) = PyInt n"
  "absolute_path (mk_row p n) = p"
  "file_size (nan_row p) = NumCell PyNaN"
  "row_num (nan_row p) = PyNaN"
  "file_size (str_row p t) = StrCell t"
  by (simp_all add: mk_row_def nan_row_def str_row_def row_size_def row_num_def)

end
