(* ===== verification/Writer.thy ===== *)
theory Writer
  imports Manifest
begin

text \<open>
  The files \<^verbatim>\<open>src/bin/data_grouper.py\<close> writes: the full list (lines 17 and
  18) and one file per group (\<^verbatim>\<open>save_group\<close>, lines 45 to 48). The disk is
  the log of the writes in the order they happen; a file holds the rows of
  the data frame written to it. The serialisation to \<^verbatim>\<open>xlsx\<close> is the
  library's and is not modelled, and a write never fails here:
  \<^verbatim>\<open>DataFrame.to_excel\<close> raises for more than 1,048,576 rows, without an
  engine, and on an error of the file system, and what is proved of \<open>main\<close>
  is proved up to that.
\<close>

section \<open>The disk\<close>

type_synonym disk = "(string \<times> row list) list"

text \<open>\<^verbatim>\<open>to_excel\<close> creates the file or replaces it: the last write of a name wins.\<close>

definition to_excel :: "string \<Rightarrow> row list \<Rightarrow> disk \<Rightarrow> disk" where
  "to_excel name rs d = d @ [(name, rs)]"

definition file_content :: "disk \<Rightarrow> string \<Rightarrow> row list option" where
  "file_content d name = map_of (rev d) name"

section \<open>File names\<close>

text \<open>The decimal digits of a natural number, as \<^verbatim>\<open>str\<close> prints them.\<close>

definition digit_char :: "nat \<Rightarrow> char" where
  "digit_char d = ''0123456789'' ! d"

fun str_of_nat :: "nat \<Rightarrow> string" where
  "str_of_nat n =
     (if n < 10 then [digit_char n] else str_of_nat (n div 10) @ [digit_char (n mod 10)])"

text \<open>\<^verbatim>\<open>{count:03d}\<close>: the digits, padded with zeros on the left to three characters.\<close>

definition format_03d :: "nat \<Rightarrow> string" where
  "format_03d n = replicate (3 - length (str_of_nat n)) CHR ''0'' @ str_of_nat n"

definition full_list_name :: "string \<Rightarrow> string" where
  "full_list_name prefix = prefix @ ''_full_list.xlsx''"

definition group_name :: "string \<Rightarrow> nat \<Rightarrow> string" where
  "group_name prefix count = prefix @ ''_group_'' @ format_03d count @ ''.xlsx''"

text \<open>
  Reading a number back from its digits, as \<^verbatim>\<open>int\<close> does on a string of
  decimal digits. The code never does it; the names are read back to show
  that no two counts share one.
\<close>

definition digit_val :: "char \<Rightarrow> nat" where
  "digit_val c = of_char c - 48"

definition str_val :: "string \<Rightarrow> nat" where
  "str_val s = foldl (\<lambda>a c. 10 * a + digit_val c) 0 s"

section \<open>Saving a group\<close>

definition save_group :: "row list \<Rightarrow> string \<Rightarrow> nat \<Rightarrow> disk \<Rightarrow> disk" where
  "save_group data_list prefix count d = to_excel (group_name prefix count) data_list d"

section \<open>Facts\<close>

declare str_of_nat.simps [simp del]

lemma save_group_append: "save_group g p n d = d @ [(group_name p n, g)]"
  by (simp add: save_group_def to_excel_def)

lemma file_content_to_excel:
  "file_content (to_excel name rs d) name' =
     (if name' = name then Some rs else file_content d name')"
  by (simp add: file_content_def to_excel_def)

lemma str_of_nat_digit: "n < 10 \<Longrightarrow> str_of_nat n = [digit_char n]"
  by (simp add: str_of_nat.simps)

lemma str_of_nat_step:
  "10 \<le> n \<Longrightarrow> str_of_nat n = str_of_nat (n div 10) @ [digit_char (n mod 10)]"
  by (subst str_of_nat.simps) simp

lemma str_of_nat_nonempty: "str_of_nat n \<noteq> []"
  by (subst str_of_nat.simps) simp

lemma length_format_03d: "3 \<le> length (format_03d n)"
  by (simp add: format_03d_def)

lemma format_03d_small: "n < 10 \<Longrightarrow> format_03d n = [CHR ''0'', CHR ''0'', digit_char n]"
  by (simp add: format_03d_def str_of_nat_digit numeral_3_eq_3)

text \<open>The rules that compute the file names of the first nine groups.\<close>

lemmas name_eval = full_list_name_def group_name_def format_03d_small digit_char_def

section \<open>Reading the names back\<close>

lemma digit_val_upto: "\<forall>d \<in> set [0..<10]. digit_val (digit_char d) = d"
  by (simp add: upt_rec digit_val_def digit_char_def)

lemma digit_val_digit_char: "d < 10 \<Longrightarrow> digit_val (digit_char d) = d"
  using digit_val_upto by simp

lemma digit_val_zero [simp]: "digit_val CHR ''0'' = 0"
  by (simp add: digit_val_def)

lemma str_val_simps [simp]:
  "str_val [] = 0"
  "str_val (s @ [c]) = 10 * str_val s + digit_val c"
  by (simp_all add: str_val_def)

lemma str_val_str_of_nat: "str_val (str_of_nat n) = n"
proof (induction n rule: str_of_nat.induct)
  case (1 n)
  show ?case
  proof (cases "n < 10")
    case True
    then show ?thesis
      using str_val_simps(2) [of "[]"] by (simp add: str_of_nat_digit digit_val_digit_char)
  next
    case False
    with "1.IH" show ?thesis
      by (simp add: str_of_nat_step digit_val_digit_char)
  qed
qed

lemma str_val_zeros: "str_val (replicate k CHR ''0'' @ s) = str_val s"
  by (induction k) (simp_all add: str_val_def)

lemma format_03d_inject [simp]: "format_03d m = format_03d n \<longleftrightarrow> m = n"
  by (metis format_03d_def str_val_zeros str_val_str_of_nat)

lemma group_name_inject [simp]: "group_name p m = group_name p n \<longleftrightarrow> m = n"
  by (simp add: group_name_def)

lemma group_name_neq_full_list [simp]:
  "group_name p n \<noteq> full_list_name p" "full_list_name p \<noteq> group_name p n"
  by (simp_all add: group_name_def full_list_name_def)

lemma distinct_group_names [simp]: "distinct (map (group_name p) [i..<j])"
  by (simp add: distinct_map inj_on_def)

text \<open>How long the digits of a number are.\<close>

lemma length_str_of_nat_le:
  "length (str_of_nat n) \<le> Suc k \<longleftrightarrow> n < 10 ^ Suc k"
proof (induction k arbitrary: n)
  case 0
  show ?case
    by (cases "n < 10") (simp_all add: str_of_nat_digit str_of_nat_step str_of_nat_nonempty Suc_le_eq)
next
  case (Suc k)
  show ?case
  proof (cases "n < 10")
    case True
    have "(10 :: nat) \<le> 10 ^ Suc (Suc k)" by simp
    with True show ?thesis by (simp add: str_of_nat_digit del: power_Suc)
  next
    case False
    then have "length (str_of_nat n) \<le> Suc (Suc k) \<longleftrightarrow> n div 10 < 10 ^ Suc k"
      by (simp add: str_of_nat_step Suc.IH del: power_Suc)
    also have "\<dots> \<longleftrightarrow> n < 10 ^ Suc (Suc k)"
      by (simp add: div_less_iff_less_mult mult.commute)
    finally show ?thesis .
  qed
qed

lemma length_format_03d_eq: "length (format_03d n) = max 3 (length (str_of_nat n))"
  by (simp add: format_03d_def)

section \<open>The names of the group files\<close>

text \<open>
  C16 (roundtrip). The count can be read back from the field that
  \<^verbatim>\<open>{count:03d}\<close> prints: the decimal value of \<open>format_03d n\<close> is \<open>n\<close>, for
  every count, padded or not.
\<close>

theorem format_03d_roundtrip: "str_val (format_03d n) = n"
  by (simp add: format_03d_def str_val_zeros str_val_str_of_nat)

text \<open>
  C17 (bounds). The field of \<^verbatim>\<open>{count:03d}\<close> is three characters wide
  exactly for the counts below 1000; from the thousandth group on the names
  are longer, and sorting the names as text no longer sorts the groups.
\<close>

theorem format_03d_width: "length (format_03d n) = 3 \<longleftrightarrow> n < 1000"
proof -
  have "length (str_of_nat n) \<le> 3 \<longleftrightarrow> n < 1000"
    using length_str_of_nat_le [of n 2] by (simp add: numeral_3_eq_3)
  then show ?thesis
    by (auto simp: length_format_03d_eq)
qed

end
