(* ===== verification/Greedy_Spec.thy ===== *)
theory Greedy_Spec
  imports Grouper_Prelude
begin

text \<open>
  The grouping the specification asks for (spec.md, section 4.1), stated
  without files, counters or Python values, over any type of records \<open>'a\<close>
  with a size \<open>sz\<close> in an additive monoid \<open>'n\<close> and a predicate \<open>over\<close>
  that says when a total is over the limit. The grouping loop of
  \<^verbatim>\<open>src/bin/data_grouper.py\<close> is shown to compute it in theory \<open>Grouper\<close>,
  with the numbers of \<open>Py_Values\<close> as the monoid.

  \<^item> \<open>greedy_step\<close>, \<open>finish\<close> and \<open>greedy\<close> are steps 2, 3 and the whole of the
    algorithm of section 4.1, over the state \<open>(out, cur, n)\<close>: the groups
    closed so far, the open group and its running size.
  \<^item> \<open>greedy_from\<close> is the same grouping by recursion on the records still to
    come; \<open>finish_foldl\<close> shows that the two agree.
  \<^item> \<open>greedy_partition\<close> says what the grouping is without saying how it is
    computed: the groups are non-empty and concatenate to the input, a record
    joined a group only where the total stayed within the limit (\<open>fits\<close>),
    and a group was closed only where the next record would have passed it
    (\<open>forced\<close>). \<open>greedy_characterisation\<close>: exactly one list of groups
    satisfies this, the one \<open>greedy\<close> computes.
  \<^item> \<open>group\<close> is the contract of section 4.1 with its failure conditions
    (section 7), over integer sizes and a rational limit.
  \<^item> \<open>admissible\<close> are the groupings within the limit; \<open>greedy_optimal\<close>:
    with sizes that are not negative none of them has fewer groups than the
    greedy one.
\<close>

section \<open>The algorithm\<close>

type_synonym ('a, 'n) gstate = "'a list list \<times> 'a list \<times> 'n"

definition total :: "('a \<Rightarrow> 'n::monoid_add) \<Rightarrow> 'a list \<Rightarrow> 'n" where
  "total sz g = sum_list (map sz g)"

fun greedy_step ::
  "('a \<Rightarrow> 'n::monoid_add) \<Rightarrow> ('n \<Rightarrow> bool) \<Rightarrow> ('a, 'n) gstate \<Rightarrow> 'a \<Rightarrow> ('a, 'n) gstate" where
  "greedy_step sz over (out, cur, n) r =
     (if over (n + sz r) \<and> cur \<noteq> [] then (out @ [cur], [r], 0 + sz r)
      else (out, cur @ [r], n + sz r))"

fun finish :: "('a, 'n) gstate \<Rightarrow> 'a list list" where
  "finish (out, cur, n) = (if cur \<noteq> [] then out @ [cur] else out)"

definition greedy :: "('a \<Rightarrow> 'n::monoid_add) \<Rightarrow> ('n \<Rightarrow> bool) \<Rightarrow> 'a list \<Rightarrow> 'a list list" where
  "greedy sz over rs = finish (foldl (greedy_step sz over) ([], [], 0) rs)"

fun greedy_from ::
  "('a \<Rightarrow> 'n::monoid_add) \<Rightarrow> ('n \<Rightarrow> bool) \<Rightarrow> 'a list \<Rightarrow> 'n \<Rightarrow> 'a list \<Rightarrow> 'a list list" where
  "greedy_from sz over cur n [] = (if cur \<noteq> [] then [cur] else [])"
| "greedy_from sz over cur n (r # rs) =
     (if over (n + sz r) \<and> cur \<noteq> [] then cur # greedy_from sz over [r] (0 + sz r) rs
      else greedy_from sz over (cur @ [r]) (n + sz r) rs)"

section \<open>The grouping, declaratively\<close>

fun fits :: "('a \<Rightarrow> 'n::monoid_add) \<Rightarrow> ('n \<Rightarrow> bool) \<Rightarrow> 'a list \<Rightarrow> bool" where
  "fits sz over g = list_all (\<lambda>k. \<not> over (total sz (take k g))) [2..<Suc (length g)]"

fun forced :: "('a \<Rightarrow> 'n::monoid_add) \<Rightarrow> ('n \<Rightarrow> bool) \<Rightarrow> 'a list list \<Rightarrow> bool" where
  "forced sz over (g # h # gs) = (over (total sz g + sz (hd h)) \<and> forced sz over (h # gs))"
| "forced sz over gs = True"

definition greedy_partition ::
  "('a \<Rightarrow> 'n::monoid_add) \<Rightarrow> ('n \<Rightarrow> bool) \<Rightarrow> 'a list \<Rightarrow> 'a list list \<Rightarrow> bool" where
  "greedy_partition sz over rs gs =
     (concat gs = rs \<and> list_all (\<lambda>g. g \<noteq> []) gs \<and> list_all (fits sz over) gs \<and> forced sz over gs)"

text \<open>
  The groupings the specification allows, over integer sizes and a rational
  limit: every group is non-empty, and within the limit unless it is a single
  record.
\<close>

definition admissible :: "('a \<Rightarrow> int) \<Rightarrow> rat \<Rightarrow> 'a list list \<Rightarrow> bool" where
  "admissible sz L ps = list_all (\<lambda>g. g \<noteq> [] \<and> (length g = 1 \<or> of_int (total sz g) \<le> L)) ps"

section \<open>The contract with its failure conditions\<close>

datatype spec_error = ConfigurationError | MalformedRecord

definition over_limit :: "rat \<Rightarrow> int \<Rightarrow> bool" where
  "over_limit L n = (L < of_int n)"

definition group ::
  "('a \<Rightarrow> int) \<Rightarrow> rat \<Rightarrow> 'a list \<Rightarrow> (spec_error, 'a list \<times> 'a list list) result" where
  "group sz L rs =
     (if L \<le> 0 then Inl ConfigurationError
      else if list_ex (\<lambda>r. sz r < 0) rs then Inl MalformedRecord
      else Inr (rs, greedy sz (over_limit L) rs))"

section \<open>Facts about the algorithm\<close>

lemma total_simps [simp]:
  "total sz [] = 0"
  "total sz (g @ h) = total sz g + total sz h"
  "total sz [r] = sz r"
  by (simp_all add: total_def)

lemma total_Cons: "total sz (r # g) = sz r + total sz g"
  by (simp add: total_def)

lemma finish_foldl:
  "finish (foldl (greedy_step sz over) (out, cur, n) rs) = out @ greedy_from sz over cur n rs"
  by (induction rs arbitrary: out cur n) simp_all

lemma greedy_eq_from: "greedy sz over rs = greedy_from sz over [] 0 rs"
  by (simp add: greedy_def finish_foldl)

lemma concat_greedy_from: "concat (greedy_from sz over cur n rs) = cur @ rs"
  by (induction rs arbitrary: cur n) simp_all

lemma greedy_from_nonempty: "g \<in> set (greedy_from sz over cur n rs) \<Longrightarrow> g \<noteq> []"
  by (induction rs arbitrary: cur n) (auto split: if_splits)

lemma greedy_from_eq_Nil: "greedy_from sz over cur n rs = [] \<longleftrightarrow> cur = [] \<and> rs = []"
  using concat_greedy_from [of sz over cur n rs] 
  by (cases rs) (auto dest: arg_cong [where f = concat] split: if_splits)

text \<open>After the first record the open group is never empty, so the groups closed so far
  are all but the last group of the result.\<close>

lemma foldl_greedy_open:
  assumes "foldl (greedy_step sz over) (out, cur, n) rs = (out', cur', n')"
    and "cur \<noteq> [] \<or> rs \<noteq> []"
  shows "cur' \<noteq> []"
  using assms
  by (induction rs arbitrary: out cur n) (auto split: if_splits)

lemma closed_groups_butlast:
  "fst (foldl (greedy_step sz over) ([], [], 0) rs) = butlast (greedy sz over rs)"
proof (cases "foldl (greedy_step sz over) ([], [], 0) rs")
  case (fields out cur n)
  show ?thesis
  proof (cases "rs = []")
    case True
    then show ?thesis by (simp add: greedy_def)
  next
    case False
    with fields have "cur \<noteq> []"
      by (auto dest: foldl_greedy_open)
    with fields show ?thesis by (simp add: greedy_def)
  qed
qed

section \<open>Facts about the declarative grouping\<close>

lemma fits_iff: "fits sz over g \<longleftrightarrow> (\<forall>k. 2 \<le> k \<and> k \<le> length g \<longrightarrow> \<not> over (total sz (take k g)))"
  by (auto simp: list_all_iff)

declare fits.simps [simp del]

lemma fits_short [simp]: "length g \<le> 1 \<Longrightarrow> fits sz over g"
  by (auto simp: fits_iff)

lemma fits_snoc:
  "fits sz over (g @ [r]) \<longleftrightarrow> fits sz over g \<and> (g \<noteq> [] \<longrightarrow> \<not> over (total sz g + sz r))"
proof -
  have "g \<noteq> [] \<longleftrightarrow> 2 \<le> Suc (length g)"
    by (cases g) simp_all
  then show ?thesis
    by (simp add: fits_iff all_le_Suc)
qed

lemma fits_total: "fits sz over g \<Longrightarrow> 2 \<le> length g \<Longrightarrow> \<not> over (total sz g)"
  by (auto simp: fits_iff)

lemma greedy_from_head:
  assumes "cur \<noteq> []"
  shows "\<exists>g gs. greedy_from sz over cur n rs = (cur @ g) # gs"
  using assms
proof (induction rs arbitrary: cur n)
  case Nil
  then show ?case by simp
next
  case (Cons r rs)
  show ?case
  proof (cases "over (n + sz r)")
    case True
    with Cons.prems show ?thesis by simp
  next
    case False
    from Cons.IH [of "cur @ [r]" "n + sz r"]
    obtain g gs where "greedy_from sz over (cur @ [r]) (n + sz r) rs = ((cur @ [r]) @ g) # gs"
      by auto
    with False show ?thesis by simp
  qed
qed

lemma greedy_from_fits:
  assumes "n = total sz cur" and "fits sz over cur"
  shows "list_all (fits sz over) (greedy_from sz over cur n rs)"
  using assms
proof (induction rs arbitrary: cur n)
  case Nil
  then show ?case by simp
next
  case (Cons r rs)
  show ?case
  proof (cases "over (n + sz r) \<and> cur \<noteq> []")
    case True
    have "list_all (fits sz over) (greedy_from sz over [r] (0 + sz r) rs)"
      by (rule Cons.IH) simp_all
    with True Cons.prems show ?thesis by simp
  next
    case False
    with Cons.prems have "fits sz over (cur @ [r])"
      by (auto simp: fits_snoc)
    then have "list_all (fits sz over) (greedy_from sz over (cur @ [r]) (n + sz r) rs)"
      by (intro Cons.IH) (simp add: Cons.prems)
    with False show ?thesis by auto
  qed
qed

lemma greedy_from_forced:
  assumes "n = total sz cur"
  shows "forced sz over (greedy_from sz over cur n rs)"
  using assms
proof (induction rs arbitrary: cur n)
  case Nil
  then show ?case by simp
next
  case (Cons r rs)
  show ?case
  proof (cases "over (n + sz r) \<and> cur \<noteq> []")
    case True
    obtain g gs where h: "greedy_from sz over [r] (0 + sz r) rs = ([r] @ g) # gs"
      using greedy_from_head [of "[r]"] by blast
    have "forced sz over (greedy_from sz over [r] (0 + sz r) rs)"
      by (rule Cons.IH) simp
    with True h Cons.prems show ?thesis by simp
  next
    case False
    have "forced sz over (greedy_from sz over (cur @ [r]) (n + sz r) rs)"
      by (rule Cons.IH) (simp add: Cons.prems)
    with False show ?thesis by auto
  qed
qed

lemma fits_prefix_total:
  assumes "fits sz over (a @ b)" and "2 \<le> length a"
  shows "\<not> over (total sz a)"
  using assms by (auto simp: fits_iff dest: spec [where x = "length a"])

lemma greedy_from_absorb:
  assumes "cur \<noteq> []" and "n = total sz cur" and "fits sz over (cur @ g)"
  shows "greedy_from sz over cur n (g @ rs) = greedy_from sz over (cur @ g) (total sz (cur @ g)) rs"
  using assms
proof (induction g arbitrary: cur n)
  case Nil
  then show ?case by simp
next
  case (Cons y g)
  from Cons.prems(3) have "fits sz over ((cur @ [y]) @ g)" by simp
  moreover from this Cons.prems(1) have "\<not> over (total sz (cur @ [y]))"
    by (intro fits_prefix_total) (auto simp: Suc_le_eq)
  ultimately show ?case
    using Cons.IH [of "cur @ [y]" "n + sz y"] Cons.prems(2) by simp
qed

lemma greedy_from_unique:
  assumes "cur \<noteq> []" and "n = total sz cur"
    and "list_all (\<lambda>g. g \<noteq> []) gs"
    and "list_all (fits sz over) ((cur @ g) # gs)"
    and "forced sz over ((cur @ g) # gs)"
  shows "greedy_from sz over cur n (g @ concat gs) = (cur @ g) # gs"
  using assms
proof (induction gs arbitrary: cur n g)
  case Nil
  then show ?case
    by (simp add: greedy_from_absorb [where rs = "[]", simplified])
next
  case (Cons h gs)
  from Cons.prems(3) obtain x h' where h: "h = x # h'"
    by (cases h) auto
  have "greedy_from sz over cur n (g @ concat (h # gs)) =
        greedy_from sz over (cur @ g) (total sz (cur @ g)) (x # h' @ concat gs)"
    using Cons.prems(1,2,4) by (simp add: greedy_from_absorb h)
  also have "\<dots> = (cur @ g) # greedy_from sz over [x] (0 + sz x) (h' @ concat gs)"
    using Cons.prems(1,5) by (simp add: h)
  also have "greedy_from sz over [x] (0 + sz x) (h' @ concat gs) = ([x] @ h') # gs"
    using Cons.prems(3,4,5) by (intro Cons.IH) (simp_all add: h)
  finally show ?case by (simp add: h)
qed

lemma greedy_partition_unique:
  assumes "greedy_partition sz over rs gs"
  shows "gs = greedy sz over rs"
proof (cases gs)
  case Nil
  with assms show ?thesis
    by (simp add: greedy_partition_def greedy_eq_from)
next
  case (Cons g gs')
  with assms obtain x g' where g: "g = x # g'"
    by (cases g) (auto simp: greedy_partition_def)
  have "greedy_from sz over [x] (0 + sz x) (g' @ concat gs') = ([x] @ g') # gs'"
    using assms by (intro greedy_from_unique) (simp_all add: greedy_partition_def Cons g)
  moreover from assms have "rs = x # g' @ concat gs'"
    by (auto simp: greedy_partition_def Cons g)
  ultimately show ?thesis
    by (simp add: greedy_eq_from Cons g)
qed

lemma greedy_is_partition: "greedy_partition sz over rs (greedy sz over rs)"
proof -
  have "list_all (fits sz over) (greedy_from sz over [] 0 rs)"
    by (rule greedy_from_fits) simp_all
  moreover have "forced sz over (greedy_from sz over [] 0 rs)"
    by (rule greedy_from_forced) simp
  ultimately show ?thesis
    by (auto simp: greedy_partition_def greedy_eq_from concat_greedy_from list_all_iff
        dest: greedy_from_nonempty)
qed

lemma greedy_characterisation:
  "greedy_partition sz over rs gs \<longleftrightarrow> gs = greedy sz over rs"
  using greedy_is_partition greedy_partition_unique by blast

section \<open>Facts about the groups\<close>

lemma greedy_nonempty: "g \<in> set (greedy sz over rs) \<Longrightarrow> g \<noteq> []"
  by (auto simp: greedy_eq_from dest: greedy_from_nonempty)

lemma concat_greedy [simp]: "concat (greedy sz over rs) = rs"
  by (simp add: greedy_eq_from concat_greedy_from)

lemma greedy_Nil [simp]: "greedy sz over [] = []"
  by (simp add: greedy_eq_from)

lemma greedy_eq_Nil [simp]: "greedy sz over rs = [] \<longleftrightarrow> rs = []"
  by (simp add: greedy_eq_from greedy_from_eq_Nil)

lemma greedy_subset:
  assumes "g \<in> set (greedy sz over rs)"
  shows "set g \<subseteq> set rs"
proof -
  from assms have "set g \<subseteq> \<Union> (set ` set (greedy sz over rs))" by blast
  also have "\<dots> = set (concat (greedy sz over rs))" by (simp only: set_concat)
  finally show ?thesis by simp
qed

lemma length_greedy_le: "length (greedy sz over rs) \<le> length rs"
  using length_concat_ge [of "greedy sz over rs"] by (auto dest: greedy_nonempty)

lemma greedy_fits: "g \<in> set (greedy sz over rs) \<Longrightarrow> fits sz over g"
  using greedy_is_partition [of sz over rs] by (simp add: greedy_partition_def list_all_iff)

lemma greedy_bound:
  assumes "g \<in> set (greedy sz over rs)" and "2 \<le> length g"
  shows "\<not> over (total sz g)"
  using assms by (auto dest: greedy_fits fits_total)

text \<open>A limit that no total passes: one group. The premise is about the running
  size \<open>n\<close> only, so it also covers a running size that absorbs what is added to it.\<close>

lemma greedy_from_never_over:
  assumes "\<And>m. \<not> over (n + m)"
  shows "greedy_from sz over cur n rs = (if cur = [] \<and> rs = [] then [] else [cur @ rs])"
  using assms
proof (induction rs arbitrary: cur n)
  case Nil
  then show ?case by simp
next
  case (Cons r rs)
  have "\<not> over (n + sz r + m)" for m
    using Cons.prems [of "sz r + m"] by (simp add: add.assoc)
  then have "greedy_from sz over (cur @ [r]) (n + sz r) rs = [(cur @ [r]) @ rs]"
    by (subst Cons.IH) simp_all
  with Cons.prems [of "sz r"] show ?case by simp
qed

text \<open>The grouping only looks at sizes through \<open>over\<close>: a homomorphism of sizes that
  respects \<open>over\<close> does not change it.\<close>

lemma greedy_from_hom:
  assumes "\<And>a b. h (a + b) = h a + h b" and "h 0 = 0"
    and "\<And>r. r \<in> set rs \<Longrightarrow> sz' r = h (sz r)"
    and "\<And>n. over' (h n) = over n"
  shows "greedy_from sz' over' cur (h n) rs = greedy_from sz over cur n rs"
  using assms(3)
proof (induction rs arbitrary: cur n)
  case Nil
  show ?case by simp
next
  case (Cons r rs)
  have r: "sz' r = h (sz r)"
    by (rule Cons.prems) simp
  have 1: "greedy_from sz' over' [r] (h (0 + sz r)) rs = greedy_from sz over [r] (0 + sz r) rs"
    by (rule Cons.IH) (simp add: Cons.prems)
  have 2: "greedy_from sz' over' (cur @ [r]) (h (n + sz r)) rs =
           greedy_from sz over (cur @ [r]) (n + sz r) rs"
    by (rule Cons.IH) (simp add: Cons.prems)
  from 1 2 show ?case
    by (simp add: r assms(1,4) flip: assms(1))
qed

lemma greedy_hom:
  assumes "\<And>a b. h (a + b) = h a + h b" and "h 0 = 0"
    and "\<And>r. r \<in> set rs \<Longrightarrow> sz' r = h (sz r)"
    and "\<And>n. over' (h n) = over n"
  shows "greedy sz' over' rs = greedy sz over rs"
proof -
  have "greedy_from sz' over' [] (h 0) rs = greedy_from sz over [] 0 rs"
    using assms by (rule greedy_from_hom)
  then show ?thesis
    by (simp add: greedy_eq_from assms(2))
qed

text \<open>A limit that every sum of two sizes passes: one record per group.\<close>

lemma greedy_from_singletons:
  assumes "\<And>x y. x \<in> set (r # rs) \<Longrightarrow> y \<in> set rs \<Longrightarrow> over (sz x + sz y)"
  shows "greedy_from sz over [r] (sz r) rs = map (\<lambda>x. [x]) (r # rs)"
  using assms
proof (induction rs arbitrary: r)
  case Nil
  show ?case by simp
next
  case (Cons y rs)
  have "over (sz r + sz y)"
    by (rule Cons.prems) simp_all
  moreover have "greedy_from sz over [y] (sz y) rs = map (\<lambda>x. [x]) (y # rs)"
    by (rule Cons.IH) (simp add: Cons.prems)
  ultimately show ?case by simp
qed

lemma greedy_singletons:
  assumes "\<And>x y. x \<in> set rs \<Longrightarrow> y \<in> set rs \<Longrightarrow> over (sz x + sz y)"
  shows "greedy sz over rs = map (\<lambda>x. [x]) rs"
proof (cases rs)
  case Nil
  then show ?thesis by (simp add: greedy_eq_from)
next
  case (Cons r rs')
  have "greedy_from sz over [r] (sz r) rs' = map (\<lambda>x. [x]) (r # rs')"
    by (rule greedy_from_singletons) (simp_all add: assms Cons)
  then show ?thesis by (simp add: greedy_eq_from Cons)
qed

lemma greedy_append_never_over:
  assumes "foldl (greedy_step sz over) ([], [], 0) pre = (out, cur, n)"
    and "\<And>m. \<not> over (n + sz r + m)"
  shows "greedy sz over (pre @ r # post) = out @ [cur @ r # post]"
proof -
  have "\<not> over (n + sz r)"
    using assms(2) [of 0] by simp
  then have "greedy sz over (pre @ r # post) = out @ greedy_from sz over (cur @ [r]) (n + sz r) post"
    by (simp add: greedy_def assms(1) finish_foldl)
  with assms(2) show ?thesis
    by (simp add: greedy_from_never_over)
qed

section \<open>The greedy grouping uses the fewest groups\<close>

lemma admissible_simps [simp]:
  "admissible sz L []"
  "admissible sz L (g # ps) \<longleftrightarrow>
     g \<noteq> [] \<and> (length g = 1 \<or> of_int (total sz g) \<le> L) \<and> admissible sz L ps"
  by (auto simp: admissible_def)

lemma total_nonneg: "\<forall>r \<in> set g. 0 \<le> sz r \<Longrightarrow> (0 :: int) \<le> total sz g"
  by (induction g) (simp_all add: total_Cons)

text \<open>A group that holds an open group of the greedy grouping and the record that closed it
  is not admissible.\<close>

lemma over_not_admissible:
  assumes "\<forall>r \<in> set (x @ cur @ r # us). 0 \<le> sz r"
    and "over_limit L (total sz cur + sz r)" and "cur \<noteq> []"
  shows "\<not> (length (x @ cur @ r # us) = 1 \<or> of_int (total sz (x @ cur @ r # us)) \<le> L)"
proof -
  have "0 \<le> total sz x" "0 \<le> total sz us"
    using assms(1) by (auto intro: total_nonneg)
  then have "total sz cur + sz r \<le> total sz (x @ cur @ r # us)"
    by (simp add: total_Cons)
  then have "(of_int (total sz cur + sz r) :: rat) \<le> of_int (total sz (x @ cur @ r # us))"
    by (simp only: of_int_le_iff)
  with assms(2,3) show ?thesis
    by (cases cur) (auto simp: over_limit_def)
qed

text \<open>Where the greedy grouping closes a group, an admissible grouping has closed one too.\<close>

lemma admissible_first_group:
  assumes "\<forall>r \<in> set (concat (g # ps)). 0 \<le> sz r" and "admissible sz L (g # ps)"
    and "concat (g # ps) = x @ cur @ r # rs"
    and "over_limit L (total sz cur + sz r)" and "cur \<noteq> []"
  obtains y where "concat ps = y @ [r] @ rs"
proof -
  from assms(3) have "g @ concat ps = (x @ cur) @ r # rs" by simp
  then have "\<exists>us. g = (x @ cur) @ us \<and> us @ concat ps = r # rs \<or>
      g @ us = x @ cur \<and> concat ps = us @ r # rs"
    by (simp only: append_eq_append_conv2)
  then obtain us where "g = (x @ cur) @ us \<and> us @ concat ps = r # rs \<or>
      g @ us = x @ cur \<and> concat ps = us @ r # rs" ..
  then show ?thesis
  proof
    assume a: "g = (x @ cur) @ us \<and> us @ concat ps = r # rs"
    show ?thesis
    proof (cases us)
      case Nil
      with a have "concat ps = [] @ [r] @ rs" by simp
      then show ?thesis by (rule that)
    next
      case (Cons u us')
      with a have g: "g = x @ cur @ r # us'" by simp
      have "\<not> (length g = 1 \<or> of_int (total sz g) \<le> L)"
        unfolding g using assms(1,4,5)
        by (intro over_not_admissible) (auto simp: g)
      with assms(2) show ?thesis by simp
    qed
  next
    assume "g @ us = x @ cur \<and> concat ps = us @ r # rs"
    then have "concat ps = us @ [r] @ rs" by simp
    then show ?thesis by (rule that)
  qed
qed

text \<open>
  The greedy grouping stays ahead: from any point on, it needs no more
  groups than an admissible grouping of the records from an earlier point on.
\<close>

lemma greedy_from_optimal:
  assumes "\<forall>r \<in> set (concat ps). 0 \<le> sz r" and "n = total sz cur"
    and "admissible sz L ps" and "concat ps = x @ cur @ rs"
  shows "length (greedy_from sz (over_limit L) cur n rs) \<le> length ps"
  using assms
proof (induction rs arbitrary: cur n x ps)
  case Nil
  then show ?case by (cases ps) auto
next
  case (Cons r rs)
  show ?case
  proof (cases "over_limit L (n + sz r) \<and> cur \<noteq> []")
    case False
    have "length (greedy_from sz (over_limit L) (cur @ [r]) (n + sz r) rs) \<le> length ps"
      using Cons.prems by (intro Cons.IH [where x = x]) simp_all
    with False show ?thesis by auto
  next
    case True
    from Cons.prems(4) True obtain g ps' where ps: "ps = g # ps'"
      by (cases ps) auto
    from Cons.prems(1) have "\<forall>r \<in> set (concat (g # ps')). 0 \<le> sz r"
      by (simp only: ps)
    moreover from Cons.prems True have "admissible sz L (g # ps')"
      and "concat (g # ps') = x @ cur @ r # rs"
      and "over_limit L (total sz cur + sz r)" and "cur \<noteq> []"
      by (simp_all add: ps)
    ultimately obtain y where y: "concat ps' = y @ [r] @ rs"
      by (rule admissible_first_group)
    have "length (greedy_from sz (over_limit L) [r] (0 + sz r) rs) \<le> length ps'"
      using Cons.prems(1,3) y by (intro Cons.IH [where x = y]) (simp_all add: ps)
    with True show ?thesis by (simp add: ps)
  qed
qed

lemma greedy_optimal:
  assumes "\<forall>r \<in> set rs. 0 \<le> sz r" and "admissible sz L ps" and "concat ps = rs"
  shows "length (greedy sz (over_limit L) rs) \<le> length ps"
  unfolding greedy_eq_from using assms
  by (intro greedy_from_optimal [where x = "[]"]) simp_all

text \<open>The greedy grouping is admissible, so a larger limit never needs more groups.\<close>

lemma greedy_admissible: "admissible sz L (greedy sz (over_limit L) rs)"
  unfolding admissible_def list_all_iff
proof
  fix g
  assume g: "g \<in> set (greedy sz (over_limit L) rs)"
  then have "g \<noteq> []" by (rule greedy_nonempty)
  moreover have "of_int (total sz g) \<le> L" if "2 \<le> length g"
    using greedy_bound [OF g that] by (simp add: over_limit_def)
  ultimately show "g \<noteq> [] \<and> (length g = 1 \<or> of_int (total sz g) \<le> L)"
    by (cases g; cases "tl g") auto
qed

lemma admissible_mono: "L \<le> L' \<Longrightarrow> admissible sz L ps \<Longrightarrow> admissible sz L' ps"
  by (induction ps) auto

lemma greedy_limit_mono:
  assumes "\<forall>r \<in> set rs. 0 \<le> sz r" and "L \<le> L'"
  shows "length (greedy sz (over_limit L') rs) \<le> length (greedy sz (over_limit L) rs)"
proof -
  have "admissible sz L' (greedy sz (over_limit L) rs)"
    using assms(2) greedy_admissible by (rule admissible_mono)
  with assms(1) show ?thesis
    by (rule greedy_optimal) simp
qed

end
