(* ===== verification/Grouper.thy ===== *)
theory Grouper
  imports Writer Greedy_Spec
begin

text \<open>
  The grouping loop of \<^verbatim>\<open>main\<close> in \<^verbatim>\<open>src/bin/data_grouper.py\<close> (lines 24 to
  43) and \<^verbatim>\<open>main\<close> itself. The state of the loop is its three local
  variables and the disk; one iteration is \<open>step\<close>, the loop \<open>run_loop\<close>, the
  write after the loop \<open>flush\<close>. An iteration raises \<^verbatim>\<open>TypeError\<close> when the
  size of the row is a string; what is raised carries the disk as it is at
  that moment, since the files written before stay written.
\<close>

section \<open>The state of the loop\<close>

record loop_state =
  current_group :: "row list"
  current_size :: pynum
  group_count :: nat
  files :: disk

text \<open>Lines 24 to 26, on the disk as line 18 left it.\<close>

definition init_state :: "disk \<Rightarrow> loop_state" where
  "init_state d = \<lparr>current_group = [], current_size = PyInt 0, group_count = 1, files = d\<rparr>"

section \<open>One iteration\<close>

text \<open>Lines 33 to 36: save the open group, count it, open an empty one.\<close>

definition close_group :: "string \<Rightarrow> loop_state \<Rightarrow> loop_state" where
  "close_group prefix s =
     s\<lparr>files := save_group (current_group s) prefix (group_count s) (files s),
       group_count := group_count s + 1,
       current_group := [],
       current_size := PyInt 0\<rparr>"

text \<open>
  Lines 29 to 39. The sum of line 32 is computed before the comparison and
  raises on a string; \<^verbatim>\<open>and current_group\<close> is true for a non-empty list.
  Line 39 adds the size again, to the running size as the branch left it.
\<close>

definition step ::
  "pyfloat \<Rightarrow> string \<Rightarrow> loop_state \<Rightarrow> row \<Rightarrow> (py_error \<times> disk, loop_state) result" where
  "step limit prefix s r =
     (case py_add (current_size s) (file_size r) of
        Inl e \<Rightarrow> Inl (e, files s)
      | Inr new_size \<Rightarrow>
          let s1 = (if py_gt new_size limit \<and> current_group s \<noteq> []
                    then close_group prefix s else s)
          in (case py_add (current_size s1) (file_size r) of
                Inl e \<Rightarrow> Inl (e, files s1)
              | Inr n \<Rightarrow> Inr (s1\<lparr>current_group := current_group s1 @ [r], current_size := n\<rparr>)))"

section \<open>The loop and main\<close>

definition run_loop ::
  "pyfloat \<Rightarrow> string \<Rightarrow> loop_state \<Rightarrow> row list \<Rightarrow> (py_error \<times> disk, loop_state) result" where
  "run_loop limit prefix s df = for_each (step limit prefix) s df"

text \<open>Lines 42 and 43: the last group is saved if it holds a row.\<close>

definition flush :: "string \<Rightarrow> loop_state \<Rightarrow> disk" where
  "flush prefix s =
     (if current_group s \<noteq> []
      then save_group (current_group s) prefix (group_count s) (files s)
      else files s)"

text \<open>
  \<^verbatim>\<open>main\<close> on the rows \<^verbatim>\<open>read_csv\<close> returned: the full list is written first
  (lines 17 and 18), then the groups. The result is the disk, or the
  exception with the disk as it was when it was raised.
\<close>

definition main :: "args \<Rightarrow> row list \<Rightarrow> (py_error \<times> disk, disk) result" where
  "main a df =
     (let d = to_excel (full_list_name (out_prefix a)) df [];
          limit = limit_bytes a
      in case run_loop limit (out_prefix a) (init_state d) df of
           Inl e \<Rightarrow> Inl e
         | Inr s \<Rightarrow> Inr (flush (out_prefix a) s))"

section \<open>What is on the disk\<close>

text \<open>
  The disk after a run, whether it raised or not; the group files, which are
  the writes after the first; and the state of the loop as the abstract
  algorithm sees it.
\<close>

definition disk_of :: "(py_error \<times> disk, disk) result \<Rightarrow> disk" where
  "disk_of r = (case r of Inl (e, d) \<Rightarrow> d | Inr d \<Rightarrow> d)"

definition group_files :: "disk \<Rightarrow> row list list" where
  "group_files d = map snd (tl d)"

definition abs_state :: "loop_state \<Rightarrow> (row, pynum) gstate" where
  "abs_state s = (group_files (files s), current_group s, current_size s)"

definition exceeds :: "pyfloat \<Rightarrow> pynum \<Rightarrow> bool" where
  "exceeds limit n = py_gt n limit"

text \<open>The group files of \<open>gs\<close>, numbered from \<open>k\<close>.\<close>

definition numbered :: "string \<Rightarrow> nat \<Rightarrow> row list list \<Rightarrow> disk" where
  "numbered prefix k gs = zip (map (group_name prefix) [k..<k + length gs]) gs"

text \<open>
  What every iteration keeps true: the full list is on the disk, the group
  files are numbered from 1 in the order they were written, the counter is
  the number of the next group, no group file is empty, and the running size
  is the sum of the sizes in the open group.
\<close>

definition loop_inv :: "string \<Rightarrow> loop_state \<Rightarrow> bool" where
  "loop_inv prefix s \<longleftrightarrow>
     files s \<noteq> [] \<and>
     tl (files s) = numbered prefix 1 (group_files (files s)) \<and>
     group_count s = length (files s) \<and>
     list_all (\<lambda>g. g \<noteq> []) (group_files (files s)) \<and>
     current_size s = total row_num (current_group s)"

text \<open>
  The states the loop can be in, started on the disk \<open>d\<close>: the state before
  the first iteration, and the state after an iteration that returned.
\<close>

inductive reachable :: "pyfloat \<Rightarrow> string \<Rightarrow> disk \<Rightarrow> loop_state \<Rightarrow> bool"
  for limit :: pyfloat and prefix :: string and d :: disk where
  init: "reachable limit prefix d (init_state d)"
| iter: "reachable limit prefix d s \<Longrightarrow> step limit prefix s r = Inr s' \<Longrightarrow>
         reachable limit prefix d s'"

section \<open>Facts about the disk\<close>

lemma numbered_simps [simp]:
  "numbered p k [] = []"
  "numbered p k (gs @ [g]) = numbered p k gs @ [(group_name p (k + length gs), g)]"
  "length (numbered p k gs) = length gs"
  "map snd (numbered p k gs) = gs"
  "map fst (numbered p k gs) = map (group_name p) [k..<k + length gs]"
  by (simp_all add: numbered_def)

lemma numbered_inject [simp]: "numbered p k gs = numbered p k gs' \<longleftrightarrow> gs = gs'"
proof
  assume "numbered p k gs = numbered p k gs'"
  then have "map snd (numbered p k gs) = map snd (numbered p k gs')"
    by (rule arg_cong)
  then show "gs = gs'" by simp
qed simp

lemma group_files_simps [simp]:
  "group_files [f] = []"
  "d \<noteq> [] \<Longrightarrow> group_files (d @ [(name, g)]) = group_files d @ [g]"
  "length (group_files d) = length d - 1"
  "group_files (f # d) = map snd d"
  by (simp_all add: group_files_def)

lemma distinct_full_numbered [simp]:
  "distinct (full_list_name p # map fst (numbered p k gs))"
  by (auto simp: numbered_def)

lemma group_files_save_group [simp]:
  "d \<noteq> [] \<Longrightarrow> group_files (save_group g p n d) = group_files d @ [g]"
  by (simp add: save_group_append)

section \<open>Facts about one iteration\<close>

lemma step_error:
  assumes "\<not> is_num_cell (file_size r)"
  shows "step limit p s r = Inl (TypeError, files s)"
proof -
  from assms obtain t where "file_size r = StrCell t"
    by (cases "file_size r") auto
  then show ?thesis by (simp add: step_def)
qed

lemma step_close:
  assumes "is_num_cell (file_size r)"
    and "exceeds limit (current_size s + row_num r)" and "current_group s \<noteq> []"
  shows "step limit p s r =
     Inr ((close_group p s)\<lparr>current_group := [r], current_size := row_num r\<rparr>)"
  using assms by (simp add: step_def exceeds_def row_num_def close_group_def)

lemma step_keep:
  assumes "is_num_cell (file_size r)"
    and "\<not> (exceeds limit (current_size s + row_num r) \<and> current_group s \<noteq> [])"
  shows "step limit p s r =
     Inr (s\<lparr>current_group := current_group s @ [r], current_size := current_size s + row_num r\<rparr>)"
  using assms by (auto simp: step_def exceeds_def row_num_def)

lemma step_returns_iff: "returns (step limit p s r) \<longleftrightarrow> is_num_cell (file_size r)"
  by (cases "is_num_cell (file_size r)";
      cases "exceeds limit (current_size s + row_num r) \<and> current_group s \<noteq> []")
    (simp_all add: step_close step_keep step_error)

lemma step_cases [consumes 1, case_names close keep]:
  assumes "step limit p s r = Inr s'"
    and "\<lbrakk>is_num_cell (file_size r); exceeds limit (current_size s + row_num r);
          current_group s \<noteq> [];
          s' = (close_group p s)\<lparr>current_group := [r], current_size := row_num r\<rparr>\<rbrakk> \<Longrightarrow> P"
    and "\<lbrakk>is_num_cell (file_size r);
          \<not> (exceeds limit (current_size s + row_num r) \<and> current_group s \<noteq> []);
          s' = s\<lparr>current_group := current_group s @ [r],
                 current_size := current_size s + row_num r\<rparr>\<rbrakk> \<Longrightarrow> P"
  shows P
proof -
  from assms(1) have num: "is_num_cell (file_size r)"
    using step_returns_iff [of limit p s r] by simp
  show ?thesis
  proof (cases "exceeds limit (current_size s + row_num r) \<and> current_group s \<noteq> []")
    case True
    with num assms(1) show ?thesis
      by (intro assms(2)) (simp_all add: step_close)
  next
    case False
    with num assms(1) show ?thesis
      by (intro assms(3)) (simp_all add: step_keep)
  qed
qed

lemma step_abs:
  assumes "step limit p s r = Inr s'" and "files s \<noteq> []"
  shows "abs_state s' = greedy_step row_num (exceeds limit) (abs_state s) r"
  using assms by (cases rule: step_cases) (auto simp: abs_state_def close_group_def)

lemma step_files:
  assumes "step limit p s r = Inr s'"
  shows "\<exists>ws. files s' = files s @ ws"
  using assms by (cases rule: step_cases) (auto simp: close_group_def save_group_append)

lemma step_inv:
  assumes "step limit p s r = Inr s'" and "loop_inv p s"
  shows "loop_inv p s'"
  using assms by (cases rule: step_cases) (auto simp: loop_inv_def close_group_def save_group_append)

section \<open>Facts about the loop\<close>

lemma run_loop_simps [simp]:
  "run_loop limit p s [] = Inr s"
  "run_loop limit p s (r # rs) =
     (case step limit p s r of Inl e \<Rightarrow> Inl e | Inr s' \<Rightarrow> run_loop limit p s' rs)"
  unfolding run_loop_def by simp_all

text \<open>The reachable states are the states of the loop on some rows.\<close>

lemma run_loop_snoc:
  "run_loop limit p s (rs @ [r]) =
     (case run_loop limit p s rs of Inl e \<Rightarrow> Inl e | Inr s' \<Rightarrow> step limit p s' r)"
  unfolding run_loop_def by (rule for_each_snoc)

lemma run_loop_reachable:
  assumes "run_loop limit p (init_state d) rs = Inr s"
  shows "reachable limit p d s"
  using assms
proof (induction rs arbitrary: s rule: rev_induct)
  case Nil
  then show ?case by (auto intro: reachable.init)
next
  case (snoc r rs)
  from snoc.prems obtain s' where "run_loop limit p (init_state d) rs = Inr s'"
    and "step limit p s' r = Inr s"
    by (auto simp: run_loop_snoc split: sum.splits)
  with snoc.IH show ?case
    by (blast intro: reachable.iter)
qed

lemma reachable_run_loop:
  assumes "reachable limit p d s"
  shows "\<exists>rs. run_loop limit p (init_state d) rs = Inr s"
  using assms
proof (induction rule: reachable.induct)
  case init
  have "run_loop limit p (init_state d) [] = Inr (init_state d)" by simp
  then show ?case ..
next
  case (iter s r s')
  then obtain rs where "run_loop limit p (init_state d) rs = Inr s" by blast
  with iter.hyps(2) have "run_loop limit p (init_state d) (rs @ [r]) = Inr s'"
    by (simp add: run_loop_snoc)
  then show ?case ..
qed

lemma run_loop_inv:
  assumes "run_loop limit p s rs = Inr s'" and "loop_inv p s"
  shows "loop_inv p s'"
  using assms unfolding run_loop_def
  by (rule for_each_invariant) (rule step_inv)

lemma run_loop_returns_iff: "returns (run_loop limit p s rs) \<longleftrightarrow> num_rows rs"
  unfolding run_loop_def num_rows_def by (rule for_each_returns_iff) (rule step_returns_iff)

lemma run_loop_files:
  assumes "run_loop limit p s rs = Inr s'"
  shows "\<exists>ws. files s' = files s @ ws"
  using assms unfolding run_loop_def
  by (rule for_each_invariant) (auto dest: step_files)

lemma run_loop_abs:
  assumes "run_loop limit p s rs = Inr s'" and "files s \<noteq> []"
  shows "abs_state s' = foldl (greedy_step row_num (exceeds limit)) (abs_state s) rs"
  using assms
proof (induction rs arbitrary: s)
  case Nil
  then show ?case by simp
next
  case (Cons r rs)
  from Cons.prems(1) obtain s1 where s1: "step limit p s r = Inr s1"
    and rest: "run_loop limit p s1 rs = Inr s'"
    by (auto split: sum.splits)
  from s1 Cons.prems(2) have "files s1 \<noteq> []"
    by (auto dest: step_files)
  with rest have "abs_state s' = foldl (greedy_step row_num (exceeds limit)) (abs_state s1) rs"
    by (rule Cons.IH)
  with s1 Cons.prems(2) show ?case
    by (simp add: step_abs)
qed

lemma loop_inv_init: "loop_inv p (init_state [f])"
  by (simp add: loop_inv_def init_state_def zero_pynum_def)

lemma loop_inv_files:
  assumes "loop_inv p s"
  shows "files s = hd (files s) # numbered p 1 (group_files (files s))"
  using assms by (cases "files s") (auto simp: loop_inv_def)

lemma flush_inv:
  assumes "loop_inv p s"
  shows "flush p s = hd (files s) # numbered p 1 (finish (abs_state s))"
proof -
  from assms obtain f d where "files s = f # d"
    by (cases "files s") (auto simp: loop_inv_def)
  with assms show ?thesis
    by (auto simp: flush_def loop_inv_def abs_state_def save_group_append)
qed

text \<open>
  The loop started on a disk that holds one file, run over rows whose sizes
  are numbers: it returns, in a state that satisfies the invariant, that the
  abstract algorithm reaches on the same rows, and with the first file still
  first.
\<close>

lemma run_loop_init:
  assumes "num_rows rs"
  obtains s where "run_loop limit p (init_state [f]) rs = Inr s"
    and "loop_inv p s"
    and "abs_state s = foldl (greedy_step row_num (exceeds limit)) ([], [], 0) rs"
    and "hd (files s) = f"
proof -
  from assms obtain s where run: "run_loop limit p (init_state [f]) rs = Inr s"
    using run_loop_returns_iff [of limit p "init_state [f]" rs] by (auto simp: returns_iff)
  then have inv: "loop_inv p s"
    by (rule run_loop_inv) (rule loop_inv_init)
  have abs: "abs_state s = foldl (greedy_step row_num (exceeds limit)) ([], [], 0) rs"
    by (subst run_loop_abs [OF run]) (simp_all add: init_state_def abs_state_def zero_pynum_def)
  from run have "\<exists>ws. files s = files (init_state [f]) @ ws"
    by (rule run_loop_files)
  then have "hd (files s) = f"
    by (auto simp: init_state_def)
  with run inv abs show ?thesis
    by (rule that)
qed

section \<open>Facts about main\<close>

lemma exceeds_simps [simp]:
  "exceeds (Finite L) (PyInt n) = over_limit L n"
  "\<not> exceeds limit PyNaN"
  "\<not> exceeds PosInf m"
  "\<not> exceeds NaN m"
  by (simp_all add: exceeds_def over_limit_def)

lemma total_row_size [simp]: "total row_size g = total_size g"
  by (simp add: total_def total_size_def)

lemma greedy_int_rows:
  assumes "int_rows df"
  shows "greedy row_num (exceeds (Finite L)) df = greedy row_size (over_limit L) df"
  using assms by (intro greedy_hom [where h = PyInt]) (simp_all add: zero_pynum_def int_row_num int_rows_mem)

lemma not_num_rows_split:
  assumes "\<not> num_rows df"
  obtains pre r post where "df = pre @ r # post" "num_rows pre" "\<not> is_num_cell (file_size r)"
proof -
  from assms have "\<exists>r \<in> set df. \<not> is_num_cell (file_size r)"
    by (simp add: num_rows_def list_all_iff)
  then obtain pre r post where "df = pre @ r # post" "\<not> is_num_cell (file_size r)"
    "\<forall>x \<in> set pre. \<not> \<not> is_num_cell (file_size x)"
    using split_list_first_prop [of df "\<lambda>r. \<not> is_num_cell (file_size r)"] by blast
  then show ?thesis
    by (intro that [of pre r post]) (simp_all add: num_rows_def list_all_iff)
qed

text \<open>What \<open>main\<close> returns on rows whose sizes are numbers.\<close>

lemma main_returns_eq:
  assumes "num_rows df"
  shows "main a df =
           Inr ((full_list_name (out_prefix a), df) #
                numbered (out_prefix a) 1 (greedy row_num (exceeds (limit_bytes a)) df))"
proof -
  let ?p = "out_prefix a" and ?f = "(full_list_name (out_prefix a), df)"
  from assms obtain s where "run_loop (limit_bytes a) ?p (init_state [?f]) df = Inr s"
    and "loop_inv ?p s"
    and "abs_state s = foldl (greedy_step row_num (exceeds (limit_bytes a))) ([], [], 0) df"
    and "hd (files s) = ?f"
    by (rule run_loop_init)
  then show ?thesis
    by (simp add: main_def to_excel_def flush_inv greedy_def)
qed

text \<open>What \<open>main\<close> raises at the first row whose size is not a number.\<close>

lemma main_raises_eq:
  assumes "num_rows pre" and "\<not> is_num_cell (file_size r)"
  shows "main a (pre @ r # post) =
           Inl (TypeError, (full_list_name (out_prefix a), pre @ r # post) #
                numbered (out_prefix a) 1 (butlast (greedy row_num (exceeds (limit_bytes a)) pre)))"
proof -
  let ?p = "out_prefix a" and ?f = "(full_list_name (out_prefix a), pre @ r # post)"
  from assms(1) obtain s where run: "run_loop (limit_bytes a) ?p (init_state [?f]) pre = Inr s"
    and inv: "loop_inv ?p s"
    and abs: "abs_state s = foldl (greedy_step row_num (exceeds (limit_bytes a))) ([], [], 0) pre"
    and hd: "hd (files s) = ?f"
    by (rule run_loop_init)
  have files: "files s = ?f # numbered ?p 1 (group_files (files s))"
    by (rule loop_inv_files [OF inv, unfolded hd])
  have groups: "group_files (files s) = butlast (greedy row_num (exceeds (limit_bytes a)) pre)"
    using arg_cong [OF abs, of fst] by (simp add: abs_state_def closed_groups_butlast)
  have "main a (pre @ r # post) = Inl (TypeError, files s)"
    using run assms(2) by (simp add: main_def to_excel_def run_loop_def for_each_append step_error)
  also have "files s = ?f # numbered ?p 1 (butlast (greedy row_num (exceeds (limit_bytes a)) pre))"
    by (subst files) (simp only: groups)
  finally show ?thesis .
qed

text \<open>The disk after any run: the full list, then numbered groups, none empty.\<close>

lemma main_disk:
  obtains gs where "disk_of (main a df) = (full_list_name (out_prefix a), df) # numbered (out_prefix a) 1 gs"
    and "list_all (\<lambda>g. g \<noteq> []) gs"
proof (cases "num_rows df")
  case True
  then show ?thesis
    by (intro that [of "greedy row_num (exceeds (limit_bytes a)) df"])
      (auto simp: main_returns_eq disk_of_def list_all_iff dest: greedy_nonempty)
next
  case False
  then obtain pre r post where "df = pre @ r # post" "num_rows pre" "\<not> is_num_cell (file_size r)"
    by (rule not_num_rows_split)
  then show ?thesis
    by (intro that [of "butlast (greedy row_num (exceeds (limit_bytes a)) pre)"])
      (auto simp: main_raises_eq disk_of_def list_all_iff dest: greedy_nonempty in_set_butlastD)
qed

section \<open>Evaluation\<close>

text \<open>The rules that run \<open>main\<close> on given rows, and those that compute \<open>greedy\<close>.\<close>

lemmas main_eval = main_def run_loop_def step_def flush_def close_group_def init_state_def
  save_group_def to_excel_def Let_def max_double_def

lemmas greedy_eval = max_double_def greedy_def over_limit_def numbered_def disk_of_def group_files_def
  group_def greedy_partition_def fits.simps total_def upt_rec [of _ "numeral _"] upt_rec [of _ "Suc _"]


section \<open>The grouping that main writes\<close>

text \<open>
  C1 (refinement). \<open>main\<close> implements the contract of section 4.1 of spec.md
  on the inputs the contract admits: when every size is a non-negative
  integer and the limit in bytes is finite and positive, \<open>main\<close> returns, the
  first file on the disk holds the full sequence, and the group files hold,
  in order, the groups \<open>group\<close> returns.
\<close>

theorem main_refines_spec:
  assumes "valid_rows df" and "limit_bytes a = Finite L" and "0 < L"
  shows "\<exists>d. main a df = Inr d \<and> group row_size L df = Inr (snd (hd d), group_files d)"
proof -
  from assms(1) have "\<not> list_ex (\<lambda>r. row_size r < 0) df"
    by (auto simp: valid_rows_def list_all_iff list_ex_iff)
  with assms show ?thesis
    by (simp add: main_returns_eq group_def greedy_int_rows)
qed

theorem main_refines_spec_witness:
  "valid_rows [mk_row ''a'' 3, mk_row ''b'' 8, mk_row ''c'' 2] \<and>
   limit_bytes (bytes_args 10) = Finite 10 \<and> (0 :: rat) < 10 \<and>
   (\<exists>d. main (bytes_args 10) [mk_row ''a'' 3, mk_row ''b'' 8, mk_row ''c'' 2] = Inr d \<and>
        group row_size 10 [mk_row ''a'' 3, mk_row ''b'' 8, mk_row ''c'' 2] =
          Inr (snd (hd d), group_files d))"
  using main_refines_spec [of "[mk_row ''a'' 3, mk_row ''b'' 8, mk_row ''c'' 2]" "bytes_args 10" 10]
  by (simp add: max_double_def)

text \<open>
  C2 (functional). Order preservation and coverage: on a table whose sizes
  are numbers, \<open>main\<close> returns and the group files, concatenated in the order
  they were written, are the table: every row is in exactly one group, in
  its place.
\<close>

theorem main_preserves_order:
  assumes "num_rows df"
  shows "\<exists>d. main a df = Inr d \<and> concat (group_files d) = df"
  using assms by (simp add: main_returns_eq)

theorem main_preserves_order_witness:
  "num_rows [mk_row ''a'' 3, nan_row ''b'', mk_row ''c'' 2] \<and>
   (\<exists>d. main (bytes_args 10) [mk_row ''a'' 3, nan_row ''b'', mk_row ''c'' 2] = Inr d \<and>
        concat (group_files d) = [mk_row ''a'' 3, nan_row ''b'', mk_row ''c'' 2])"
  using main_preserves_order [of "[mk_row ''a'' 3, nan_row ''b'', mk_row ''c'' 2]" "bytes_args 10"]
  by simp

text \<open>
  C3 (bounds). The size bound: with integer sizes and a finite limit, every
  group file that holds more than one row has a total size of at most the
  limit. No sign is assumed of the sizes.
\<close>

theorem main_size_bound:
  assumes "int_rows df" and "limit_bytes a = Finite L"
    and "g \<in> set (group_files (disk_of (main a df)))" and "2 \<le> length g"
  shows "of_int (total_size g) \<le> L"
proof -
  from assms(1-3) have "g \<in> set (greedy row_size (over_limit L) df)"
    by (simp add: main_returns_eq greedy_int_rows disk_of_def)
  then have "\<not> over_limit L (total row_size g)"
    using assms(4) by (rule greedy_bound)
  then show ?thesis
    by (simp add: over_limit_def)
qed

theorem main_size_bound_witness:
  "int_rows [mk_row ''a'' 5, mk_row ''b'' 5, mk_row ''c'' 5] \<and>
   limit_bytes (bytes_args 10) = Finite 10 \<and>
   [mk_row ''a'' 5, mk_row ''b'' 5] \<in>
     set (group_files (disk_of (main (bytes_args 10) [mk_row ''a'' 5, mk_row ''b'' 5, mk_row ''c'' 5]))) \<and>
   2 \<le> length [mk_row ''a'' 5, mk_row ''b'' 5] \<and>
   (of_int (total_size [mk_row ''a'' 5, mk_row ''b'' 5]) :: rat) \<le> 10"
  using main_size_bound [of "[mk_row ''a'' 5, mk_row ''b'' 5, mk_row ''c'' 5]" "bytes_args 10" 10
      "[mk_row ''a'' 5, mk_row ''b'' 5]"]
  by (simp add: main_returns_eq greedy_eval)

text \<open>
  C4 (equivalence). With integer sizes and a finite limit, the group files of
  \<open>main\<close> are characterised without reference to the loop: a list of groups
  is what \<open>main\<close> writes after the full list if and only if it is a greedy
  partition of the table, that is, its groups are non-empty and concatenate
  to the table, within each group every prefix of two or more rows is within
  the limit, and each group but the last is over the limit together with the
  first row of the next.
\<close>

theorem main_groups_characterised:
  assumes "int_rows df" and "limit_bytes a = Finite L"
  shows "greedy_partition row_size (over_limit L) df gs \<longleftrightarrow>
         main a df = Inr ((full_list_name (out_prefix a), df) # numbered (out_prefix a) 1 gs)"
  using assms by (auto simp: main_returns_eq greedy_int_rows greedy_characterisation)

theorem main_groups_characterised_witness:
  "int_rows [mk_row ''a'' 3, mk_row ''b'' 8, mk_row ''c'' 2] \<and>
   limit_bytes (bytes_args 10) = Finite 10 \<and>
   (greedy_partition row_size (over_limit 10) [mk_row ''a'' 3, mk_row ''b'' 8, mk_row ''c'' 2]
       [[mk_row ''a'' 3], [mk_row ''b'' 8, mk_row ''c'' 2]] \<longleftrightarrow>
    main (bytes_args 10) [mk_row ''a'' 3, mk_row ''b'' 8, mk_row ''c'' 2] =
      Inr ((full_list_name (out_prefix (bytes_args 10)),
            [mk_row ''a'' 3, mk_row ''b'' 8, mk_row ''c'' 2]) #
           numbered (out_prefix (bytes_args 10)) 1
             [[mk_row ''a'' 3], [mk_row ''b'' 8, mk_row ''c'' 2]]))"
  using main_groups_characterised [of "[mk_row ''a'' 3, mk_row ''b'' 8, mk_row ''c'' 2]"
      "bytes_args 10" 10 "[[mk_row ''a'' 3], [mk_row ''b'' 8, mk_row ''c'' 2]]"]
  by (simp add: max_double_def)

section \<open>Errors\<close>

text \<open>
  C5 (error). \<open>main\<close> returns if and only if every size in the table is a
  number. A limit that is zero, negative, infinite or \<^verbatim>\<open>nan\<close>, a negative
  size and an empty size (\<^verbatim>\<open>nan\<close>) raise nothing; the only exception of the
  loop is the \<^verbatim>\<open>TypeError\<close> of a size that is text.
\<close>

theorem main_raises_iff: "returns (main a df) \<longleftrightarrow> num_rows df"
proof (cases "num_rows df")
  case True
  then show ?thesis by (simp add: main_returns_eq)
next
  case False
  then obtain pre r post where "df = pre @ r # post" "num_rows pre" "\<not> is_num_cell (file_size r)"
    by (rule not_num_rows_split)
  with False show ?thesis by (simp add: main_raises_eq)
qed

text \<open>
  C6 (error). When the first size that is text is met, \<open>main\<close> raises
  \<^verbatim>\<open>TypeError\<close> and leaves output behind: the full list of the whole table,
  and the group files of every group that was closed while the rows before
  it were read, which are all but the last group of those rows.
\<close>

theorem main_partial_output:
  assumes "num_rows pre" and "\<not> is_num_cell (file_size r)"
  shows "\<exists>d. main a (pre @ r # post) = Inl (TypeError, d) \<and>
             hd d = (full_list_name (out_prefix a), pre @ r # post) \<and>
             group_files d = butlast (greedy row_num (exceeds (limit_bytes a)) pre)"
  using assms by (simp add: main_raises_eq)

theorem main_partial_output_witness:
  "num_rows [mk_row ''a'' 6, mk_row ''b'' 6] \<and> \<not> is_num_cell (file_size (str_row ''c'' ''n/a'')) \<and>
   (\<exists>d. main (bytes_args 10) ([mk_row ''a'' 6, mk_row ''b'' 6] @ str_row ''c'' ''n/a'' # []) =
          Inl (TypeError, d) \<and>
        hd d = (full_list_name (out_prefix (bytes_args 10)),
                [mk_row ''a'' 6, mk_row ''b'' 6] @ str_row ''c'' ''n/a'' # []) \<and>
        group_files d =
          butlast (greedy row_num (exceeds (limit_bytes (bytes_args 10)))
            [mk_row ''a'' 6, mk_row ''b'' 6]))"
  using main_partial_output [of "[mk_row ''a'' 6, mk_row ''b'' 6]" "str_row ''c'' ''n/a''"
      "bytes_args 10" "[]"]
  by simp

section \<open>The invariant and the shape of the disk\<close>

text \<open>
  C7 (invariant). Every state the loop can reach, started on a disk that
  holds the full list, satisfies \<open>loop_inv\<close>: the group files are numbered
  from 1 in the order they were written, the counter is the number of the
  next group, no group file is empty, and the running size is the sum of the
  sizes in the open group.
\<close>

theorem reachable_loop_inv:
  assumes "reachable limit p [f] s"
  shows "loop_inv p s"
  using assms
proof (induction rule: reachable.induct)
  case init
  show ?case by (rule loop_inv_init)
next
  case (iter s r s')
  from iter.hyps(2) iter.IH show ?case by (rule step_inv)
qed

theorem reachable_loop_inv_witness:
  "reachable (Finite 10) ''result'' [(''result_full_list.xlsx'', [mk_row ''a'' 3])]
     \<lparr>current_group = [mk_row ''a'' 3], current_size = PyInt 3, group_count = 1,
      files = [(''result_full_list.xlsx'', [mk_row ''a'' 3])]\<rparr> \<and>
   loop_inv ''result''
     \<lparr>current_group = [mk_row ''a'' 3], current_size = PyInt 3, group_count = 1,
      files = [(''result_full_list.xlsx'', [mk_row ''a'' 3])]\<rparr>"
proof -
  let ?f = "(''result_full_list.xlsx'', [mk_row ''a'' 3])"
  have "step (Finite 10) ''result'' (init_state [?f]) (mk_row ''a'' 3) =
      Inr \<lparr>current_group = [mk_row ''a'' 3], current_size = PyInt 3, group_count = 1, files = [?f]\<rparr>"
    by (simp add: step_keep init_state_def)
  with reachable.init have "reachable (Finite 10) ''result'' [?f]
      \<lparr>current_group = [mk_row ''a'' 3], current_size = PyInt 3, group_count = 1, files = [?f]\<rparr>"
    by (rule reachable.iter)
  then show ?thesis
    using reachable_loop_inv by blast
qed

text \<open>
  C8 (safety). The full list is the first write of every run, whether the run
  returns or raises, and it holds the table as it was read.
\<close>

theorem main_full_list_first:
  "hd (disk_of (main a df)) = (full_list_name (out_prefix a), df)"
proof -
  obtain gs where "disk_of (main a df) =
      (full_list_name (out_prefix a), df) # numbered (out_prefix a) 1 gs"
    by (rule main_disk)
  then show ?thesis by simp
qed

text \<open>
  C9 (functional). The names on the disk after any run are the name of the
  full list followed by the group names with the counts 1, 2, 3 and so on,
  without a gap, in the order the groups were closed.
\<close>

theorem main_names_sequential:
  "map fst (disk_of (main a df)) =
     full_list_name (out_prefix a) #
     map (group_name (out_prefix a)) [1..<length (disk_of (main a df))]"
proof -
  obtain gs where "disk_of (main a df) =
      (full_list_name (out_prefix a), df) # numbered (out_prefix a) 1 gs"
    by (rule main_disk)
  then show ?thesis by simp
qed

text \<open>C10 (safety). No group file is ever empty, in a run that returns or raises.\<close>

theorem main_groups_nonempty:
  "list_all (\<lambda>g. g \<noteq> []) (group_files (disk_of (main a df)))"
proof -
  obtain gs where "disk_of (main a df) =
      (full_list_name (out_prefix a), df) # numbered (out_prefix a) 1 gs"
    and "list_all (\<lambda>g. g \<noteq> []) gs"
    by (rule main_disk)
  then show ?thesis by simp
qed

text \<open>
  C18 (safety). No two writes of a run go to the same name, so no output
  file replaces another, in a run that returns or raises.
\<close>

theorem main_names_distinct: "distinct (map fst (disk_of (main a df)))"
proof -
  obtain gs where "disk_of (main a df) =
      (full_list_name (out_prefix a), df) # numbered (out_prefix a) 1 gs"
    by (rule main_disk)
  then show ?thesis
    using distinct_full_numbered [of "out_prefix a" 1 gs] by simp
qed

section \<open>Limits and sizes the specification does not admit\<close>

text \<open>
  C11 (error). A limit that is zero or negative is not rejected: with
  positive integer sizes \<open>main\<close> returns and writes one group file per row,
  where the contract of section 4.1 of spec.md fails with a configuration
  error.
\<close>

theorem main_nonpositive_limit:
  assumes "limit_bytes a = Finite L" and "L \<le> 0"
    and "list_all (\<lambda>r. is_int_cell (file_size r) \<and> 0 < row_size r) df"
  shows "main a df =
           Inr ((full_list_name (out_prefix a), df) #
                numbered (out_prefix a) 1 (map (\<lambda>r. [r]) df)) \<and>
         group row_size L df = Inl ConfigurationError"
proof -
  from assms(3) have int: "int_rows df" and pos: "\<And>r. r \<in> set df \<Longrightarrow> 0 < row_size r"
    by (auto simp: int_rows_def list_all_iff)
  have "greedy row_size (over_limit L) df = map (\<lambda>r. [r]) df"
  proof (rule greedy_singletons)
    fix x y assume "x \<in> set df" "y \<in> set df"
    then have "0 < row_size x + row_size y"
      using pos [of x] pos [of y] by simp
    then have "(0 :: rat) < of_int (row_size x + row_size y)"
      by (simp only: of_int_0_less_iff)
    with assms(2) show "over_limit L (row_size x + row_size y)"
      unfolding over_limit_def by (rule le_less_trans)
  qed
  with int assms(1,2) show ?thesis
    by (simp add: main_returns_eq greedy_int_rows group_def)
qed

theorem main_nonpositive_limit_witness:
  "limit_bytes (bytes_args 0) = Finite 0 \<and> (0 :: rat) \<le> 0 \<and>
   list_all (\<lambda>r. is_int_cell (file_size r) \<and> 0 < row_size r) [mk_row ''a'' 5, mk_row ''b'' 5] \<and>
   main (bytes_args 0) [mk_row ''a'' 5, mk_row ''b'' 5] =
     Inr ((full_list_name (out_prefix (bytes_args 0)), [mk_row ''a'' 5, mk_row ''b'' 5]) #
          numbered (out_prefix (bytes_args 0)) 1 (map (\<lambda>r. [r]) [mk_row ''a'' 5, mk_row ''b'' 5])) \<and>
   group row_size 0 [mk_row ''a'' 5, mk_row ''b'' 5] = Inl ConfigurationError"
  using main_nonpositive_limit [of "bytes_args 0" 0 "[mk_row ''a'' 5, mk_row ''b'' 5]"]
  by (simp add: max_double_def)

text \<open>
  C12 (functional). An empty size does not fail the run either: it is read as
  \<^verbatim>\<open>nan\<close>, the running size stays \<^verbatim>\<open>nan\<close> from that row on, no comparison
  with the limit is true again, and the last group file holds that row and
  every row after it, whatever their sizes.
\<close>

theorem main_nan_absorbs:
  assumes "num_rows (pre @ r # post)" and "file_size r = NumCell PyNaN"
  shows "\<exists>gs g. group_files (disk_of (main a (pre @ r # post))) = gs @ [g @ r # post]"
proof -
  obtain out cur n where st:
    "foldl (greedy_step row_num (exceeds (limit_bytes a))) ([], [], 0) pre = (out, cur, n)"
    by (cases "foldl (greedy_step row_num (exceeds (limit_bytes a))) ([], [], 0) pre")
  from assms(2) have "row_num r = PyNaN"
    by (simp add: row_num_def)
  then have "greedy row_num (exceeds (limit_bytes a)) (pre @ r # post) = out @ [cur @ r # post]"
    by (intro greedy_append_never_over [OF st]) simp
  with assms(1) show ?thesis
    by (simp add: main_returns_eq disk_of_def)
qed

theorem main_nan_absorbs_witness:
  "num_rows ([mk_row ''a'' 3] @ nan_row ''b'' # [mk_row ''c'' 100, mk_row ''d'' 100]) \<and>
   file_size (nan_row ''b'') = NumCell PyNaN \<and>
   (\<exists>gs g. group_files (disk_of (main (bytes_args 10)
        ([mk_row ''a'' 3] @ nan_row ''b'' # [mk_row ''c'' 100, mk_row ''d'' 100]))) =
      gs @ [g @ nan_row ''b'' # [mk_row ''c'' 100, mk_row ''d'' 100]])"
  using main_nan_absorbs [of "[mk_row ''a'' 3]" "nan_row ''b''"
      "[mk_row ''c'' 100, mk_row ''d'' 100]" "bytes_args 10"]
  by simp

text \<open>
  C13 (bounds). The oversized-singleton policy: when the sizes are
  non-negative integers, a row whose size alone is over the limit is the only
  row of its group file.
\<close>

theorem main_oversized_alone:
  assumes "valid_rows df" and "limit_bytes a = Finite L"
    and "g \<in> set (group_files (disk_of (main a df)))" and "r \<in> set g"
    and "L < of_int (row_size r)"
  shows "g = [r]"
proof -
  from assms(1-3) have g: "g \<in> set (greedy row_size (over_limit L) df)"
    by (simp add: main_returns_eq greedy_int_rows disk_of_def)
  then have "set g \<subseteq> set df"
    by (rule greedy_subset)
  with assms(1) have "valid_rows g"
    by (rule valid_rows_subset)
  then have "row_size r \<le> total_size g"
    using assms(4) by (rule valid_rows_mem_le_total)
  then have "(of_int (row_size r) :: rat) \<le> of_int (total_size g)"
    by (simp only: of_int_le_iff)
  with assms(5) have "over_limit L (total row_size g)"
    by (simp add: over_limit_def)
  with g have "\<not> 2 \<le> length g"
    by (auto dest: greedy_bound)
  with assms(4) show ?thesis
    by (cases g) (auto simp: Suc_le_eq)
qed

theorem main_oversized_alone_witness:
  "valid_rows [mk_row ''a'' 3, mk_row ''b'' 15, mk_row ''c'' 2] \<and>
   limit_bytes (bytes_args 10) = Finite 10 \<and>
   [mk_row ''b'' 15] \<in>
     set (group_files (disk_of (main (bytes_args 10) [mk_row ''a'' 3, mk_row ''b'' 15, mk_row ''c'' 2]))) \<and>
   mk_row ''b'' 15 \<in> set [mk_row ''b'' 15] \<and>
   (10 :: rat) < of_int (row_size (mk_row ''b'' 15)) \<and>
   [mk_row ''b'' 15] = [mk_row ''b'' 15]"
  using main_oversized_alone [of "[mk_row ''a'' 3, mk_row ''b'' 15, mk_row ''c'' 2]" "bytes_args 10" 10
      "[mk_row ''b'' 15]" "mk_row ''b'' 15"]
  by (simp add: main_returns_eq greedy_eval)

text \<open>
  C14 (bounds). A \<^verbatim>\<open>--limit_tb\<close> so large that its value in bytes is beyond
  the largest double makes the limit infinite: no group is ever closed, and a
  table that is not empty is written as one group, a copy of the full list.
\<close>

theorem main_overflowing_limit:
  assumes "limit_tb a = Finite t" and "max_double < t * 2 ^ 40"
    and "num_rows df" and "df \<noteq> []"
  shows "main a df =
           Inr [(full_list_name (out_prefix a), df), (group_name (out_prefix a) 1, df)]"
proof -
  from assms(1,2) have "limit_bytes a = PosInf"
    by (simp add: limit_bytes_def)
  then have "greedy row_num (exceeds (limit_bytes a)) df = [df]"
    using assms(4) by (simp add: greedy_eq_from greedy_from_never_over)
  with assms(3) show ?thesis
    by (simp add: main_returns_eq numbered_def)
qed

theorem main_overflowing_limit_witness:
  "limit_tb \<lparr>results = ''r.csv'', limit_tb = Finite (2 ^ 1000), out_prefix = ''out''\<rparr> = Finite (2 ^ 1000) \<and>
   max_double < 2 ^ 1000 * 2 ^ 40 \<and>
   num_rows [mk_row ''a'' 5, mk_row ''b'' 5] \<and> [mk_row ''a'' 5, mk_row ''b'' 5] \<noteq> [] \<and>
   main \<lparr>results = ''r.csv'', limit_tb = Finite (2 ^ 1000), out_prefix = ''out''\<rparr>
       [mk_row ''a'' 5, mk_row ''b'' 5] =
     Inr [(full_list_name ''out'', [mk_row ''a'' 5, mk_row ''b'' 5]),
          (group_name ''out'' 1, [mk_row ''a'' 5, mk_row ''b'' 5])]"
  using main_overflowing_limit
      [of "\<lparr>results = ''r.csv'', limit_tb = Finite (2 ^ 1000), out_prefix = ''out''\<rparr>" "2 ^ 1000"
        "[mk_row ''a'' 5, mk_row ''b'' 5]"]
  by (simp add: max_double_def)

section \<open>The number of groups\<close>

text \<open>
  C15 (bounds). There are never more group files than rows, in a run that
  returns or raises.
\<close>

theorem main_group_count: "length (group_files (disk_of (main a df))) \<le> length df"
proof (cases "num_rows df")
  case True
  then show ?thesis
    by (simp add: main_returns_eq disk_of_def length_greedy_le)
next
  case False
  then obtain pre r post where df: "df = pre @ r # post" "num_rows pre" "\<not> is_num_cell (file_size r)"
    by (rule not_num_rows_split)
  have "length (greedy row_num (exceeds (limit_bytes a)) pre) \<le> length pre"
    by (rule length_greedy_le)
  with df show ?thesis
    by (simp add: main_raises_eq disk_of_def)
qed

text \<open>
  C24 (functional). The groups are as few as can be: with sizes that are
  integers and not negative, every way to cut the table into groups that are
  within the limit, or hold a single row, has at least as many groups as
  \<open>main\<close> writes.
\<close>

theorem main_fewest_groups:
  assumes "valid_rows df" and "limit_bytes a = Finite L"
    and "admissible row_size L ps" and "concat ps = df"
  shows "length (group_files (disk_of (main a df))) \<le> length ps"
proof -
  from assms(1) have "\<forall>r \<in> set df. 0 \<le> row_size r"
    by (simp add: valid_rows_def list_all_iff)
  then have "length (greedy row_size (over_limit L) df) \<le> length ps"
    using assms(3,4) by (rule greedy_optimal)
  with assms(1,2) show ?thesis
    by (simp add: main_returns_eq greedy_int_rows disk_of_def)
qed

theorem main_fewest_groups_witness:
  "valid_rows [mk_row ''a'' 5, mk_row ''b'' 5, mk_row ''c'' 5] \<and>
   limit_bytes (bytes_args 10) = Finite 10 \<and>
   admissible row_size 10 [[mk_row ''a'' 5], [mk_row ''b'' 5, mk_row ''c'' 5]] \<and>
   concat [[mk_row ''a'' 5], [mk_row ''b'' 5, mk_row ''c'' 5]] =
     [mk_row ''a'' 5, mk_row ''b'' 5, mk_row ''c'' 5] \<and>
   length (group_files (disk_of (main (bytes_args 10) [mk_row ''a'' 5, mk_row ''b'' 5, mk_row ''c'' 5])))
     \<le> length [[mk_row ''a'' 5], [mk_row ''b'' 5, mk_row ''c'' 5]]"
  using main_fewest_groups [of "[mk_row ''a'' 5, mk_row ''b'' 5, mk_row ''c'' 5]" "bytes_args 10" 10
      "[[mk_row ''a'' 5], [mk_row ''b'' 5, mk_row ''c'' 5]]"]
  by (simp add: max_double_def total_def)

text \<open>
  C25 (functional). A larger limit never gives more groups: with sizes that
  are integers and not negative, the run with the larger of two finite
  limits writes at most as many group files as the run with the smaller.
\<close>

theorem main_limit_monotone:
  assumes "valid_rows df" and "limit_bytes a = Finite L" and "limit_bytes a' = Finite L'"
    and "L \<le> L'"
  shows "length (group_files (disk_of (main a' df))) \<le> length (group_files (disk_of (main a df)))"
proof -
  from assms(1) have "\<forall>r \<in> set df. 0 \<le> row_size r"
    by (simp add: valid_rows_def list_all_iff)
  then have "length (greedy row_size (over_limit L') df) \<le> length (greedy row_size (over_limit L) df)"
    using assms(4) by (rule greedy_limit_mono)
  with assms(1-3) show ?thesis
    by (simp add: main_returns_eq greedy_int_rows disk_of_def)
qed

theorem main_limit_monotone_witness:
  "valid_rows [mk_row ''a'' 5, mk_row ''b'' 5, mk_row ''c'' 5] \<and>
   limit_bytes (bytes_args 5) = Finite 5 \<and> limit_bytes (bytes_args 10) = Finite 10 \<and>
   (5 :: rat) \<le> 10 \<and>
   length (group_files (disk_of (main (bytes_args 10) [mk_row ''a'' 5, mk_row ''b'' 5, mk_row ''c'' 5])))
     \<le> length (group_files (disk_of (main (bytes_args 5) [mk_row ''a'' 5, mk_row ''b'' 5, mk_row ''c'' 5])))"
  using main_limit_monotone [of "[mk_row ''a'' 5, mk_row ''b'' 5, mk_row ''c'' 5]" "bytes_args 5" 5
      "bytes_args 10" 10]
  by (simp add: max_double_def)

end
