(* ===== verification/Py_Path.thy ===== *)
theory Py_Path
  imports Grouper_Prelude "HOL-Library.Sublist"
begin

text \<open>
  The string and path functions that \<^verbatim>\<open>src/bin/input_parser.py\<close> calls:
  \<^verbatim>\<open>str.endswith\<close> (lines 16, 18 and 34), \<^verbatim>\<open>os.path.join\<close> and
  \<^verbatim>\<open>os.path.abspath\<close> (line 35). The script only calls them; the
  definitions follow \<^verbatim>\<open>posixpath\<close> of CPython, on \<^verbatim>\<open>str\<close> paths: \<open>path_join\<close> is \<^verbatim>\<open>join\<close> with two
  arguments, \<open>normpath\<close> is \<^verbatim>\<open>normpath\<close> with its loop over the components as
  \<open>norm_step\<close>, and \<open>abspath\<close> takes the working directory, which
  \<^verbatim>\<open>os.getcwd()\<close> returns, as its first argument. The facts show what a
  printed path looks like: it is absolute, normalising it again changes
  nothing, and it ends with the name of the file it was printed for.
\<close>

section \<open>Strings\<close>

text \<open>\<^verbatim>\<open>s.endswith(suf)\<close> and \<^verbatim>\<open>s.startswith(pre)\<close>.\<close>

definition endswith :: "string \<Rightarrow> string \<Rightarrow> bool" where
  "endswith s suf \<longleftrightarrow> length suf \<le> length s \<and> drop (length s - length suf) s = suf"

definition startswith :: "string \<Rightarrow> string \<Rightarrow> bool" where
  "startswith s pre \<longleftrightarrow> take (length pre) s = pre"

text \<open>\<^verbatim>\<open>s.split(sep)\<close> and \<^verbatim>\<open>sep.join(ws)\<close> for a separator of one character.\<close>

fun split_sep :: "char \<Rightarrow> string \<Rightarrow> string list" where
  "split_sep sep [] = [[]]"
| "split_sep sep (c # cs) =
     (if c = sep then [] # split_sep sep cs
      else (case split_sep sep cs of w # ws \<Rightarrow> (c # w) # ws | [] \<Rightarrow> [[c]]))"

fun join_sep :: "char \<Rightarrow> string list \<Rightarrow> string" where
  "join_sep sep [] = []"
| "join_sep sep [w] = w"
| "join_sep sep (w # ws) = w @ sep # join_sep sep ws"

section \<open>Paths\<close>

text \<open>
  \<^verbatim>\<open>isabs\<close>, and \<^verbatim>\<open>join(a, b)\<close>: an absolute \<open>b\<close> replaces \<open>a\<close>, otherwise \<open>b\<close>
  is appended, after a separator unless \<open>a\<close> is empty or ends with one.
\<close>

definition isabs :: "string \<Rightarrow> bool" where
  "isabs p = startswith p ''/''"

definition path_join :: "string \<Rightarrow> string \<Rightarrow> string" where
  "path_join a b =
     (if startswith b ''/'' then b
      else if a = [] \<or> endswith a ''/'' then a @ b
      else a @ ''/'' @ b)"

text \<open>
  \<^verbatim>\<open>normpath\<close>. A path that starts with exactly two slashes keeps both, any
  other absolute path keeps one. Empty components and \<^verbatim>\<open>.\<close> are dropped;
  \<^verbatim>\<open>..\<close> removes the component before it, is kept at the start of a
  relative path and dropped at the root. The empty result is \<^verbatim>\<open>.\<close>.
\<close>

definition initial_slashes :: "string \<Rightarrow> nat" where
  "initial_slashes p =
     (if startswith p ''/''
      then (if startswith p ''//'' \<and> \<not> startswith p ''///'' then 2 else 1)
      else 0)"

definition norm_step :: "nat \<Rightarrow> string list \<Rightarrow> string \<Rightarrow> string list" where
  "norm_step init new_comps c =
     (if c = [] \<or> c = ''.'' then new_comps
      else if c \<noteq> ''..'' \<or> (init = 0 \<and> new_comps = []) \<or>
              (new_comps \<noteq> [] \<and> last new_comps = ''..'')
      then new_comps @ [c]
      else if new_comps \<noteq> [] then butlast new_comps
      else new_comps)"

definition normpath :: "string \<Rightarrow> string" where
  "normpath path =
     (if path = [] then ''.''
      else let init = initial_slashes path;
               comps = foldl (norm_step init) [] (split_sep CHR ''/'' path);
               p = replicate init CHR ''/'' @ join_sep CHR ''/'' comps
           in if p = [] then ''.'' else p)"

text \<open>\<^verbatim>\<open>abspath(path)\<close> in the working directory \<open>wd\<close>.\<close>

definition abspath :: "string \<Rightarrow> string \<Rightarrow> string" where
  "abspath wd path = normpath (if isabs path then path else path_join wd path)"

section \<open>Names and normal paths\<close>

text \<open>What the entry of a directory can be called.\<close>

definition proper :: "string \<Rightarrow> bool" where
  "proper c \<longleftrightarrow> c \<noteq> [] \<and> c \<noteq> ''.'' \<and> c \<noteq> ''..'' \<and> CHR ''/'' \<notin> set c"

text \<open>
  The components of a normal path: names, after any number of leading
  \<^verbatim>\<open>..\<close>, and none of those in an absolute path.
\<close>

definition normal_comps :: "nat \<Rightarrow> string list \<Rightarrow> bool" where
  "normal_comps init cs \<longleftrightarrow>
     list_all (\<lambda>c. c = ''..'' \<or> proper c) cs \<and>
     (0 < init \<longrightarrow> ''..'' \<notin> set cs) \<and>
     sorted_wrt (\<lambda>a b. b = ''..'' \<longrightarrow> a = ''..'') cs"

text \<open>
  A directory as the prefix of the paths below it, and the absolute path that
  \<open>abspath\<close> normalises for a path below the folder \<open>p\<close> in the working
  directory \<open>wd\<close>.
\<close>

definition dir_prefix :: "string \<Rightarrow> string" where
  "dir_prefix p = (if p = [] \<or> endswith p ''/'' then p else p @ ''/'')"

definition abs_base :: "string \<Rightarrow> string \<Rightarrow> string" where
  "abs_base wd p = (if isabs p then dir_prefix p else dir_prefix wd @ dir_prefix p)"

section \<open>Facts about strings\<close>

lemma endswith_iff: "endswith s suf \<longleftrightarrow> suffix suf s"
proof
  assume "endswith s suf"
  then have "s = take (length s - length suf) s @ suf"
    by (metis append_take_drop_id endswith_def)
  then show "suffix suf s" by (rule suffixI)
next
  assume "suffix suf s"
  then show "endswith s suf" by (auto simp: endswith_def suffix_def)
qed

lemma startswith_iff: "startswith s pre \<longleftrightarrow> prefix pre s"
  by (auto simp: startswith_def prefix_def) (metis append_eq_conv_conj)

lemma startswith_slash [simp]: "startswith s ''/'' \<longleftrightarrow> (\<exists>t. s = CHR ''/'' # t)"
  by (cases s) (auto simp: startswith_def)

lemma endswith_slash: "endswith s ''/'' \<longleftrightarrow> (\<exists>t. s = t @ ''/'')"
  by (auto simp: endswith_iff suffix_def)

lemma endswith_append [simp]: "endswith t suf \<Longrightarrow> endswith (s @ t) suf"
  by (simp add: endswith_iff suffix_appendI)

text \<open>A suffix without the separator is a suffix of the last component.\<close>

lemma endswith_basename:
  assumes "sep \<notin> set suf"
  shows "endswith (d @ sep # f) suf \<longleftrightarrow> endswith f suf"
proof
  assume "endswith (d @ sep # f) suf"
  then obtain x where "d @ sep # f = x @ suf"
    by (auto simp: endswith_iff suffix_def)
  then obtain us where "d = x @ us \<and> us @ sep # f = suf \<or> d @ us = x \<and> sep # f = us @ suf"
    by (auto simp: append_eq_append_conv2)
  with assms have "\<exists>us'. f = us' @ suf"
    by (cases us) auto
  then show "endswith f suf"
    by (auto simp: endswith_iff suffix_def)
next
  assume "endswith f suf"
  then have "endswith (d @ [sep] @ f) suf"
    by (intro endswith_append)
  then show "endswith (d @ sep # f) suf" by simp
qed

section \<open>Facts about splitting and joining\<close>

lemma split_sep_nonempty [simp]: "split_sep sep s \<noteq> []"
  by (induction s) (auto split: list.splits)

lemma split_sep_no_sep [simp]: "sep \<notin> set w \<Longrightarrow> split_sep sep w = [w]"
  by (induction w) auto

lemma split_sep_append:
  "split_sep sep (a @ sep # b) = split_sep sep a @ split_sep sep b"
proof (induction a)
  case Nil
  show ?case by simp
next
  case (Cons c a)
  then show ?case
    by (cases "split_sep sep a") auto
qed

lemma split_sep_mem: "w \<in> set (split_sep sep s) \<Longrightarrow> sep \<notin> set w"
  by (induction s arbitrary: w) (auto split: if_splits list.splits)

lemma join_sep_Cons: "ws \<noteq> [] \<Longrightarrow> join_sep sep (w # ws) = w @ sep # join_sep sep ws"
  by (cases ws) simp_all

lemma join_sep_snoc: "ws \<noteq> [] \<Longrightarrow> join_sep sep (ws @ [w]) = join_sep sep ws @ sep # w"
  by (induction ws rule: join_sep.induct) simp_all

lemma join_split [simp]: "join_sep sep (split_sep sep s) = s"
proof (induction s)
  case Nil
  show ?case by simp
next
  case (Cons c s)
  then show ?case
    by (cases "split_sep sep s"; cases "tl (split_sep sep s)") (auto simp: join_sep_Cons)
qed

lemma split_join:
  assumes "ws \<noteq> []" and "\<forall>w \<in> set ws. sep \<notin> set w"
  shows "split_sep sep (join_sep sep ws) = ws"
  using assms
proof (induction ws rule: join_sep.induct)
  case (3 sep w v ws)
  then show ?case by (simp add: split_sep_append)
qed simp_all

section \<open>Facts about normal paths\<close>

lemma proper_simps [simp]:
  "\<not> proper []" "\<not> proper ''.''" "\<not> proper ''..''"
  by (simp_all add: proper_def)

lemma norm_step_simps [simp]:
  "norm_step init cs [] = cs"
  "norm_step init cs ''.'' = cs"
  "proper c \<Longrightarrow> norm_step init cs c = cs @ [c]"
  by (auto simp: norm_step_def)

lemma normal_comps_Nil [simp]: "normal_comps init []"
  by (simp add: normal_comps_def)

lemma normal_comps_snoc:
  "normal_comps init (cs @ [c]) \<longleftrightarrow>
     normal_comps init cs \<and>
     (proper c \<or> c = ''..'' \<and> init = 0 \<and> (\<forall>a \<in> set cs. a = ''..''))"
  by (auto simp: normal_comps_def sorted_wrt_append)

lemma normal_comps_butlast: "normal_comps init cs \<Longrightarrow> normal_comps init (butlast cs)"
  by (cases cs rule: rev_cases) (simp_all add: normal_comps_snoc)

lemma normal_comps_last_up:
  assumes "normal_comps init cs" and "cs \<noteq> []" and "last cs = ''..''"
  shows "init = 0 \<and> (\<forall>a \<in> set cs. a = ''..'')"
  using assms by (cases cs rule: rev_cases) (auto simp: normal_comps_snoc)

text \<open>One step of the normalisation keeps the components normal.\<close>

lemma norm_step_normal:
  assumes "normal_comps init cs" and "CHR ''/'' \<notin> set c"
  shows "normal_comps init (norm_step init cs c)"
proof (cases "c = [] \<or> c = ''.'' \<or> proper c")
  case True
  with assms(1) show ?thesis
    by (auto simp: normal_comps_snoc)
next
  case False
  with assms(2) have c: "c = ''..''"
    by (auto simp: proper_def)
  show ?thesis
    using assms(1) normal_comps_last_up [OF assms(1)]
    by (auto simp: c norm_step_def normal_comps_snoc normal_comps_butlast)
qed

lemma foldl_norm_step_normal:
  assumes "normal_comps init cs" and "\<forall>c \<in> set xs. CHR ''/'' \<notin> set c"
  shows "normal_comps init (foldl (norm_step init) cs xs)"
  using assms by (induction xs arbitrary: cs) (simp_all add: norm_step_normal)

text \<open>Normal components are a fixed point of the normalisation.\<close>

lemma foldl_norm_step_fixed:
  assumes "normal_comps init cs"
  shows "foldl (norm_step init) [] cs = cs"
  using assms
proof (induction cs rule: rev_induct)
  case Nil
  show ?case by simp
next
  case (snoc c cs)
  then have cs: "foldl (norm_step init) [] cs = cs"
    by (simp add: normal_comps_snoc)
  from snoc.prems have "proper c \<or> c = ''..'' \<and> init = 0 \<and> (\<forall>a \<in> set cs. a = ''..'')"
    by (simp add: normal_comps_snoc)
  then have "norm_step init cs c = cs @ [c]"
    by (cases cs rule: rev_cases) (auto simp: norm_step_def)
  with cs show ?case by simp
qed

lemma foldl_norm_step_empties [simp]:
  "foldl (norm_step init) cs (replicate k []) = cs"
  by (induction k) simp_all

lemma split_sep_slashes:
  "split_sep sep (replicate k sep @ s) = replicate k [] @ split_sep sep s"
  by (induction k) simp_all

lemma startswith_simps [simp]:
  "startswith s []"
  "startswith [] (c # t) \<longleftrightarrow> False"
  "startswith (c # s) (c' # t) \<longleftrightarrow> c = c' \<and> startswith s t"
  by (auto simp: startswith_def)

lemma initial_slashes_le: "initial_slashes p \<le> 2"
  by (simp add: initial_slashes_def)

lemma initial_slashes_pos [simp]: "0 < initial_slashes p \<longleftrightarrow> isabs p"
  by (simp add: initial_slashes_def isabs_def)

lemma join_sep_eq_Nil:
  "\<forall>c \<in> set cs. c \<noteq> [] \<Longrightarrow> join_sep sep cs = [] \<longleftrightarrow> cs = []"
  by (cases "(sep, cs)" rule: join_sep.cases) auto

lemma normal_comps_mem:
  assumes "normal_comps init cs" and "c \<in> set cs"
  shows "c = ''..'' \<or> proper c"
proof -
  from assms(1) have "\<forall>c\<in>set cs. c = ''..'' \<or> proper c"
    by (simp add: normal_comps_def list_all_iff)
  then show ?thesis using assms(2) by (rule bspec)
qed

lemma normal_comps_nonempty:
  assumes "normal_comps init cs"
  shows "\<forall>c \<in> set cs. c \<noteq> [] \<and> CHR ''/'' \<notin> set c"
proof
  fix c
  assume "c \<in> set cs"
  with assms have "c = ''..'' \<or> proper c" by (rule normal_comps_mem)
  then show "c \<noteq> [] \<and> CHR ''/'' \<notin> set c"
  proof
    assume "c = ''..''"
    then show ?thesis by simp
  next
    assume "proper c"
    then show ?thesis by (simp add: proper_def)
  qed
qed

lemma normal_comps_proper:
  assumes "normal_comps init cs" and "0 < init"
  shows "list_all proper cs"
  unfolding list_all_iff
proof
  fix c
  assume c: "c \<in> set cs"
  from assms have "''..'' \<notin> set cs"
    by (simp add: normal_comps_def)
  with c have "c \<noteq> ''..''" by (rule_tac notI) simp
  with normal_comps_mem [OF assms(1) c] show "proper c" by simp
qed

lemma join_sep_hd:
  "c \<noteq> [] \<Longrightarrow> join_sep sep (c # cs) \<noteq> [] \<and> hd (join_sep sep (c # cs)) = hd c"
  by (cases cs) simp_all

lemma join_sep_no_lead:
  assumes "normal_comps init cs"
  shows "\<not> startswith (join_sep CHR ''/'' cs) ''/''"
proof (cases cs)
  case Nil
  then show ?thesis by simp
next
  case (Cons c cs')
  with normal_comps_nonempty [OF assms] have c: "c \<noteq> []" "CHR ''/'' \<notin> set c" by simp_all
  then have "hd c \<noteq> CHR ''/''"
    by (cases c) auto
  with join_sep_hd [OF c(1), of "CHR ''/''" cs'] show ?thesis
    unfolding Cons startswith_slash by (metis list.sel(1))
qed


lemma initial_slashes_of_comps:
  assumes "normal_comps init cs" and "init \<le> 2"
  shows "initial_slashes (replicate init CHR ''/'' @ join_sep CHR ''/'' cs) = init"
proof -
  from assms(2) consider "init = 0" | "init = 1" | "init = 2" by linarith
  then show ?thesis
    using join_sep_no_lead [OF assms(1)]
    by cases (auto simp: initial_slashes_def numeral_2_eq_2 simp del: startswith_slash)
qed

text \<open>The shape of a normalised path, and that normalising it again changes nothing.\<close>

lemma normpath_comps:
  assumes "path \<noteq> []"
  obtains cs where "normal_comps (initial_slashes path) cs"
    and "normpath path =
           (if initial_slashes path = 0 \<and> cs = [] then ''.''
            else replicate (initial_slashes path) CHR ''/'' @ join_sep CHR ''/'' cs)"
proof -
  let ?cs = "foldl (norm_step (initial_slashes path)) [] (split_sep CHR ''/'' path)"
  have n: "normal_comps (initial_slashes path) ?cs"
    by (rule foldl_norm_step_normal) (auto dest: split_sep_mem)
  then have "join_sep CHR ''/'' ?cs = [] \<longleftrightarrow> ?cs = []"
    by (intro join_sep_eq_Nil) (simp add: normal_comps_nonempty)
  with assms have "normpath path =
      (if initial_slashes path = 0 \<and> ?cs = [] then ''.''
       else replicate (initial_slashes path) CHR ''/'' @ join_sep CHR ''/'' ?cs)"
    by (simp add: normpath_def Let_def)
  with n show ?thesis by (rule that)
qed

lemma normpath_of_comps:
  assumes "normal_comps init cs" and "init \<le> 2"
  shows "normpath (replicate init CHR ''/'' @ join_sep CHR ''/'' cs) =
           (if init = 0 \<and> cs = [] then ''.''
            else replicate init CHR ''/'' @ join_sep CHR ''/'' cs)"
proof -
  let ?p = "replicate init CHR ''/'' @ join_sep CHR ''/'' cs"
  have init: "initial_slashes ?p = init"
    using assms by (rule initial_slashes_of_comps)
  have "foldl (norm_step init) [] (split_sep CHR ''/'' (join_sep CHR ''/'' cs)) = cs"
    using assms(1) normal_comps_nonempty [OF assms(1)]
    by (cases "cs = []") (simp_all add: split_join foldl_norm_step_fixed)
  then have comps: "foldl (norm_step init) [] (split_sep CHR ''/'' ?p) = cs"
    by (simp add: split_sep_slashes)
  have "join_sep CHR ''/'' cs = [] \<longleftrightarrow> cs = []"
    by (intro join_sep_eq_Nil) (simp add: normal_comps_nonempty [OF assms(1)])
  then show ?thesis
    by (simp add: normpath_def [of ?p] init comps Let_def)
qed

lemma normpath_dot [simp]: "normpath ''.'' = ''.''" "normpath [] = ''.''"
  by (simp_all add: normpath_def initial_slashes_def)

lemma normpath_idem: "normpath (normpath path) = normpath path"
proof (cases "path = []")
  case True
  then show ?thesis by simp
next
  case False
  then obtain cs where cs: "normal_comps (initial_slashes path) cs"
    and eq: "normpath path =
           (if initial_slashes path = 0 \<and> cs = [] then ''.''
            else replicate (initial_slashes path) CHR ''/'' @ join_sep CHR ''/'' cs)"
    by (rule normpath_comps)
  show ?thesis
    using normpath_of_comps [OF cs initial_slashes_le]
    by (simp add: eq del: initial_slashes_pos)
qed

lemma isabs_normpath:
  assumes "isabs path"
  obtains k cs where "list_all proper cs" and "0 < k"
    and "normpath path = replicate k CHR ''/'' @ join_sep CHR ''/'' cs"
proof -
  from assms have "path \<noteq> []" by (auto simp: isabs_def)
  then obtain cs where cs: "normal_comps (initial_slashes path) cs"
    and eq: "normpath path =
           (if initial_slashes path = 0 \<and> cs = [] then ''.''
            else replicate (initial_slashes path) CHR ''/'' @ join_sep CHR ''/'' cs)"
    by (rule normpath_comps)
  from assms have pos: "0 < initial_slashes path" by simp
  with cs have "list_all proper cs" by (rule normal_comps_proper)
  then show ?thesis
    using pos eq by (intro that [of cs "initial_slashes path"]) simp_all
qed

lemma path_join_name:
  assumes "proper f"
  shows "path_join a f = (if a = [] then f else if endswith a ''/'' then a @ f else a @ ''/'' @ f)"
  using assms by (cases f) (auto simp: path_join_def proper_def)

lemma path_join_basename:
  assumes "proper f" and "a \<noteq> []"
  shows "\<exists>q. path_join a f = q @ CHR ''/'' # f"
  using assms by (auto simp: path_join_name endswith_slash)

lemma isabs_path_join: "isabs a \<Longrightarrow> isabs (path_join a b)"
  by (auto simp: isabs_def path_join_def)

lemma path_join_abs_basename:
  assumes "isabs cwd"
  shows "\<exists>q. path_join cwd (d @ CHR ''/'' # f) = q @ CHR ''/'' # f"
proof (cases "isabs (d @ CHR ''/'' # f)")
  case True
  then have "path_join cwd (d @ CHR ''/'' # f) = d @ CHR ''/'' # f"
    by (simp add: path_join_def isabs_def)
  then show ?thesis by blast
next
  case False
  then have "path_join cwd (d @ CHR ''/'' # f) = (cwd @ d) @ CHR ''/'' # f \<or>
      path_join cwd (d @ CHR ''/'' # f) = (cwd @ ''/'' @ d) @ CHR ''/'' # f"
    by (simp add: path_join_def isabs_def)
  then show ?thesis by blast
qed

lemma initial_slashes_eq_0 [simp]: "initial_slashes p = 0 \<longleftrightarrow> \<not> isabs p"
  by (simp add: initial_slashes_def isabs_def)

lemma normpath_basename:
  assumes "isabs (q @ CHR ''/'' # f)" and "proper f"
  shows "\<exists>d. normpath (q @ CHR ''/'' # f) = d @ CHR ''/'' # f"
proof -
  let ?p = "q @ CHR ''/'' # f" and ?i = "initial_slashes (q @ CHR ''/'' # f)"
  let ?cs = "foldl (norm_step ?i) [] (split_sep CHR ''/'' q)"
  from assms(2) have f: "CHR ''/'' \<notin> set f" "f \<noteq> []" by (simp_all add: proper_def)
  then have comps: "foldl (norm_step ?i) [] (split_sep CHR ''/'' ?p) = ?cs @ [f]"
    using assms(2) by (simp add: split_sep_append)
  from assms(1) have "0 < ?i" by simp
  then obtain k where k: "?i = Suc k" by (cases ?i) simp_all
  have "normpath ?p = replicate ?i CHR ''/'' @ join_sep CHR ''/'' (?cs @ [f])"
    using assms(1) by (simp add: normpath_def [of ?p] comps Let_def)
  also have "\<dots> = (if ?cs = [] then replicate k CHR ''/'' else replicate ?i CHR ''/'' @ join_sep CHR ''/'' ?cs)
      @ CHR ''/'' # f"
    by (simp add: k join_sep_snoc replicate_append_same)
  finally show ?thesis by blast
qed

lemma abspath_basename:
  assumes "isabs cwd" and "proper f"
  shows "\<exists>d. abspath cwd (path_join r f) = d @ CHR ''/'' # f"
proof -
  let ?x = "path_join r f"
  have "\<exists>q. (if isabs ?x then ?x else path_join cwd ?x) = q @ CHR ''/'' # f"
  proof (cases "r = []")
    case True
    moreover from assms(1) have "cwd \<noteq> []" by (auto simp: isabs_def)
    ultimately show ?thesis
      using assms(2) path_join_basename [OF assms(2), of cwd]
      by (cases f) (auto simp: path_join_name isabs_def proper_def)
  next
    case False
    with assms(2) obtain q where q: "?x = q @ CHR ''/'' # f"
      using path_join_basename by blast
    with path_join_abs_basename [OF assms(1), of q f] show ?thesis by auto
  qed
  then obtain q where q: "(if isabs ?x then ?x else path_join cwd ?x) = q @ CHR ''/'' # f" ..
  have "isabs (if isabs ?x then ?x else path_join cwd ?x)"
    using assms(1) by (simp add: isabs_path_join)
  then have "isabs (q @ CHR ''/'' # f)" by (simp only: q)
  then have "\<exists>d. normpath (q @ CHR ''/'' # f) = d @ CHR ''/'' # f"
    using assms(2) by (rule normpath_basename)
  then show ?thesis by (simp only: abspath_def q)
qed

lemma isabs_abspath:
  assumes "isabs cwd"
  shows "isabs (abspath cwd path)"
proof -
  let ?x = "if isabs path then path else path_join cwd path"
  from assms have "isabs ?x" by (simp add: isabs_path_join)
  then obtain k cs where "0 < k" and "normpath ?x = replicate k CHR ''/'' @ join_sep CHR ''/'' cs"
    by (rule isabs_normpath)
  then show ?thesis
    by (cases k) (simp_all add: abspath_def isabs_def)
qed

lemma abspath_normal: "normpath (abspath cwd path) = abspath cwd path"
  by (simp only: abspath_def normpath_idem)

section \<open>Paths below a directory\<close>

text \<open>
  Joining names to a folder, one after the other, and making the result
  absolute gives the components of the folder followed by the names; so two
  lists of names give the same path only if they are the same.
\<close>

lemma properD: "proper c \<Longrightarrow> c \<noteq> [] \<and> CHR ''/'' \<notin> set c"
  by (simp add: proper_def)

lemma endswith_slash_last: "endswith s ''/'' \<longleftrightarrow> s \<noteq> [] \<and> last s = CHR ''/''"
  by (cases s rule: rev_cases) (simp_all add: endswith_slash)

lemma proper_no_lead: "proper c \<Longrightarrow> \<not> startswith c ''/''"
  using properD [of c] by (cases c) auto

lemma proper_last: "proper c \<Longrightarrow> c \<noteq> [] \<and> last c \<noteq> CHR ''/''"
  using properD [of c] last_in_set [of c] by metis

lemma path_join_dir_prefix: "\<not> startswith b ''/'' \<Longrightarrow> path_join a b = dir_prefix a @ b"
  by (simp add: path_join_def dir_prefix_def del: startswith_slash)

lemma join_sep_last:
  assumes "cs \<noteq> []" and "last cs \<noteq> []"
  shows "join_sep sep cs \<noteq> [] \<and> last (join_sep sep cs) = last (last cs)"
  using assms by (induction sep cs rule: join_sep.induct) simp_all

lemma foldl_path_join:
  assumes "list_all proper cs" and "cs \<noteq> []"
  shows "foldl path_join p cs = dir_prefix p @ join_sep CHR ''/'' cs"
  using assms
proof (induction cs rule: rev_induct)
  case Nil
  then show ?case by simp
next
  case (snoc c cs)
  then have c: "proper c" by simp
  note join_c = path_join_dir_prefix [OF proper_no_lead [OF c]]
  show ?case
  proof (cases "cs = []")
    case True
    then show ?thesis by (simp add: join_c)
  next
    case False
    with snoc have eq: "foldl path_join p cs = dir_prefix p @ join_sep CHR ''/'' cs"
      and "proper (last cs)" by (simp_all add: list_all_iff)
    then have "join_sep CHR ''/'' cs \<noteq> [] \<and> last (join_sep CHR ''/'' cs) \<noteq> CHR ''/''"
      using False join_sep_last [of cs "CHR ''/''"] proper_last [of "last cs"] by simp
    then have "dir_prefix (dir_prefix p @ join_sep CHR ''/'' cs) = dir_prefix p @ join_sep CHR ''/'' cs @ ''/''"
      by (simp add: dir_prefix_def [of "_ @ _"] endswith_slash_last)
    with False show ?thesis
      by (simp add: eq join_c join_sep_snoc)
  qed
qed

lemma foldl_norm_step_proper:
  "list_all proper cs \<Longrightarrow> foldl (norm_step i) C cs = C @ cs"
  by (induction cs arbitrary: C) simp_all

lemma join_sep_proper_hd:
  assumes "list_all proper cs" and "cs \<noteq> []"
  shows "join_sep CHR ''/'' cs \<noteq> [] \<and> hd (join_sep CHR ''/'' cs) \<noteq> CHR ''/''"
proof -
  from assms obtain c cs' where cs: "cs = c # cs'" and c: "proper c"
    by (cases cs) auto
  from c have "c \<noteq> []" "hd c \<noteq> CHR ''/''"
    using properD [of c] by (cases c; auto)+
  with join_sep_hd [of c "CHR ''/''" cs'] show ?thesis
    by (simp add: cs)
qed

lemma initial_slashes_cong:
  assumes "s \<noteq> []" and "hd s \<noteq> CHR ''/''"
  shows "initial_slashes (B @ CHR ''/'' # s) = initial_slashes (B @ ''/x'')"
proof -
  from assms obtain a s' where s: "s = a # s'" and a: "a \<noteq> CHR ''/''"
    by (cases s) auto
  show ?thesis
    unfolding s using a
    by (cases B; cases "tl B"; cases "tl (tl B)")
      (auto simp: initial_slashes_def simp del: startswith_slash)
qed

lemma dir_prefix_eq_Nil [simp]: "dir_prefix p = [] \<longleftrightarrow> p = []"
  by (simp add: dir_prefix_def)

lemma isabs_dir_prefix [simp]: "isabs (dir_prefix p) \<longleftrightarrow> isabs p"
  by (cases p) (simp_all add: dir_prefix_def isabs_def)

lemma abs_version:
  assumes "list_all proper cs" and "cs \<noteq> []"
  shows "(if isabs (foldl path_join p cs) then foldl path_join p cs
          else path_join wd (foldl path_join p cs)) = abs_base wd p @ join_sep CHR ''/'' cs"
proof -
  let ?j = "join_sep CHR ''/'' cs"
  have j: "?j \<noteq> [] \<and> hd ?j \<noteq> CHR ''/''"
    using assms by (rule join_sep_proper_hd)
  have X: "foldl path_join p cs = dir_prefix p @ ?j"
    using assms by (rule foldl_path_join)
  have abs: "isabs (dir_prefix p @ ?j) \<longleftrightarrow> isabs p"
    using j by (cases p; cases ?j) (auto simp: isabs_def dir_prefix_def)
  have "\<not> isabs p \<Longrightarrow> path_join wd (dir_prefix p @ ?j) = dir_prefix wd @ dir_prefix p @ ?j"
    using abs by (intro path_join_dir_prefix) (simp add: isabs_def)
  then show ?thesis
    by (simp add: X abs abs_base_def)
qed

lemma abs_base_form:
  assumes "isabs wd"
  obtains B where "abs_base wd p = B @ ''/''"
proof -
  from assms have "wd \<noteq> []" by (auto simp: isabs_def)
  then have "endswith (dir_prefix wd) ''/''" "endswith (dir_prefix p) ''/'' \<or> dir_prefix p = []"
    by (simp_all add: dir_prefix_def endswith_slash_last)
  moreover have "isabs p \<Longrightarrow> p \<noteq> []" by (auto simp: isabs_def)
  ultimately have "endswith (abs_base wd p) ''/''"
    by (auto simp: abs_base_def endswith_slash_last)
  then show ?thesis
    by (auto simp: endswith_slash intro: that)
qed

lemma isabs_abs_base: "isabs wd \<Longrightarrow> isabs (abs_base wd p)"
  by (cases wd) (auto simp: abs_base_def isabs_def dir_prefix_def)

lemma list_all_proper_no_sep: "list_all proper cs \<Longrightarrow> \<forall>c \<in> set cs. CHR ''/'' \<notin> set c"
  by (auto simp: list_all_iff dest: properD)

lemma split_join_proper:
  assumes "list_all proper cs" and "cs \<noteq> []"
  shows "split_sep CHR ''/'' (join_sep CHR ''/'' cs) = cs"
  using assms(2) list_all_proper_no_sep [OF assms(1)] by (rule split_join)

text \<open>The normal form of a path below a directory: the components of the directory, then
  the names that lead from it.\<close>

lemma normpath_below:
  assumes "isabs (B @ ''/'')" and "list_all proper cs" and "cs \<noteq> []"
  shows "normpath (B @ CHR ''/'' # join_sep CHR ''/'' cs) =
           replicate (initial_slashes (B @ ''/x'')) CHR ''/'' @
           join_sep CHR ''/'' (foldl (norm_step (initial_slashes (B @ ''/x''))) [] (split_sep CHR ''/'' B) @ cs)"
proof -
  let ?j = "join_sep CHR ''/'' cs" and ?i = "initial_slashes (B @ ''/x'')"
  have j: "?j \<noteq> [] \<and> hd ?j \<noteq> CHR ''/''"
    using assms(2,3) by (rule join_sep_proper_hd)
  then have i: "initial_slashes (B @ CHR ''/'' # ?j) = ?i"
    by (intro initial_slashes_cong) simp_all
  have "isabs (B @ ''/x'')"
    using assms(1) by (cases B) (simp_all add: isabs_def)
  then have pos: "?i \<noteq> 0" by simp
  have "split_sep CHR ''/'' (B @ CHR ''/'' # ?j) = split_sep CHR ''/'' B @ cs"
    using assms(2,3) by (simp add: split_sep_append split_join_proper)
  then have "foldl (norm_step ?i) [] (split_sep CHR ''/'' (B @ CHR ''/'' # ?j)) =
      foldl (norm_step ?i) [] (split_sep CHR ''/'' B) @ cs"
    using assms(2) by (simp add: foldl_norm_step_proper)
  with pos show ?thesis
    by (simp add: normpath_def [of "B @ CHR ''/'' # ?j"] i Let_def)
qed

lemma abspath_below:
  fixes p :: string
  assumes "isabs wd"
  obtains k C where "list_all proper C"
    and "\<And>cs. list_all proper cs \<Longrightarrow> cs \<noteq> [] \<Longrightarrow>
           abspath wd (foldl path_join p cs) = replicate k CHR ''/'' @ join_sep CHR ''/'' (C @ cs)"
proof -
  from assms obtain B where B: "abs_base wd p = B @ ''/''"
    by (rule abs_base_form)
  from assms have abs: "isabs (B @ ''/'')"
    unfolding B [symmetric] by (rule isabs_abs_base)
  let ?i = "initial_slashes (B @ ''/x'')"
  let ?C = "foldl (norm_step ?i) [] (split_sep CHR ''/'' B)"
  have "isabs (B @ ''/x'')"
    using abs by (cases B) (simp_all add: isabs_def)
  then have "0 < ?i" by simp
  moreover have "normal_comps ?i ?C"
    by (rule foldl_norm_step_normal) (auto dest: split_sep_mem)
  ultimately have "list_all proper ?C" by (rule normal_comps_proper [rotated])
  moreover have "abspath wd (foldl path_join p cs) = replicate ?i CHR ''/'' @ join_sep CHR ''/'' (?C @ cs)"
    if "list_all proper cs" "cs \<noteq> []" for cs
    using normpath_below [OF abs that] abs_version [OF that, of p wd]
    by (simp add: abspath_def B)
  ultimately show ?thesis by (rule that)
qed

lemma abspath_below_inject:
  assumes "isabs wd" and "list_all proper cs" "cs \<noteq> []" and "list_all proper cs'" "cs' \<noteq> []"
    and "abspath wd (foldl path_join p cs) = abspath wd (foldl path_join p cs')"
  shows "cs = cs'"
proof -
  from assms(1) obtain k C where C: "list_all proper C"
    and eq: "\<And>cs. list_all proper cs \<Longrightarrow> cs \<noteq> [] \<Longrightarrow>
           abspath wd (foldl path_join p cs) = replicate k CHR ''/'' @ join_sep CHR ''/'' (C @ cs)"
    by (rule abspath_below [where p = p]) blast
  from assms(2-6) have "join_sep CHR ''/'' (C @ cs) = join_sep CHR ''/'' (C @ cs')"
    by (simp add: eq)
  then have "split_sep CHR ''/'' (join_sep CHR ''/'' (C @ cs)) =
      split_sep CHR ''/'' (join_sep CHR ''/'' (C @ cs'))"
    by (rule arg_cong)
  then have "C @ cs = C @ cs'"
    using C assms(2-5) by (simp add: split_join_proper)
  then show ?thesis by simp
qed

section \<open>Evaluation\<close>

text \<open>The rules that compute a path.\<close>

lemmas path_eval = abspath_def path_join_def normpath_def initial_slashes_def startswith_def
  endswith_def isabs_def norm_step_def Let_def

end
