(* ===== verification/File_System.thy ===== *)
theory File_System
  imports Py_Path
begin

text \<open>
  The directories that \<^verbatim>\<open>src/bin/input_parser.py\<close> scans, and \<^verbatim>\<open>os.walk\<close>
  over them (line 31). A directory is the list of its entries in the order
  \<^verbatim>\<open>os.scandir\<close> yields them; everything that is not a directory is a
  file. Symbolic links and directories that cannot be read are not
  modelled. \<open>tree_files\<close> says which files a tree holds, and the facts show
  that the walk lists exactly those.
\<close>

section \<open>Trees\<close>

datatype node = File | Dir "(string \<times> node) list"

fun is_dir :: "node \<Rightarrow> bool" where
  "is_dir (Dir es) = True"
| "is_dir File = False"

definition dir_names :: "(string \<times> node) list \<Rightarrow> string list" where
  "dir_names es = map fst (filter (\<lambda>(n, e). is_dir e) es)"

definition file_names :: "(string \<times> node) list \<Rightarrow> string list" where
  "file_names es = map fst (filter (\<lambda>(n, e). \<not> is_dir e) es)"

section \<open>The walk\<close>

text \<open>
  \<^verbatim>\<open>os.walk(top)\<close>, top down: a directory yields itself with the names of its
  subdirectories and of its other entries, then the walks of its
  subdirectories, in order, each under \<^verbatim>\<open>join(top, name)\<close>. A path that is
  not a directory yields nothing: the error of \<^verbatim>\<open>scandir\<close> is ignored.
\<close>

fun walk :: "string \<Rightarrow> node \<Rightarrow> (string \<times> string list \<times> string list) list"
  and walk_dirs :: "string \<Rightarrow> (string \<times> node) list \<Rightarrow> (string \<times> string list \<times> string list) list"
  where
  "walk d File = []"
| "walk d (Dir es) = (d, dir_names es, file_names es) # walk_dirs d es"
| "walk_dirs d [] = []"
| "walk_dirs d ((n, e) # es) =
     (if is_dir e then walk (path_join d n) e else []) @ walk_dirs d es"

section \<open>The files of a tree\<close>

text \<open>
  The files below a directory, each as the list of the names that lead to
  it, in the order of the walk: the files of the directory first, then those
  of its subdirectories.
\<close>

fun tree_files :: "node \<Rightarrow> string list list"
  and entries_files :: "(string \<times> node) list \<Rightarrow> string list list" where
  "tree_files File = []"
| "tree_files (Dir es) = map (\<lambda>n. [n]) (file_names es) @ entries_files es"
| "entries_files [] = []"
| "entries_files ((n, e) # es) = map ((#) n) (tree_files e) @ entries_files es"

text \<open>
  In a well-formed tree every entry has a name (not empty, not \<^verbatim>\<open>.\<close> or
  \<^verbatim>\<open>..\<close>, without a separator) and no directory has two entries of the same
  name.
\<close>

fun wf_node :: "node \<Rightarrow> bool" and wf_entries :: "(string \<times> node) list \<Rightarrow> bool" where
  "wf_node File = True"
| "wf_node (Dir es) = (distinct (map fst es) \<and> wf_entries es)"
| "wf_entries [] = True"
| "wf_entries ((n, e) # es) = (proper n \<and> wf_node e \<and> wf_entries es)"

section \<open>Facts\<close>

lemma is_dir_iff: "is_dir e \<longleftrightarrow> e \<noteq> File"
  by (cases e) simp_all

lemma names_simps [simp]:
  "dir_names [] = []" "file_names [] = []"
  "dir_names ((n, e) # es) = (if is_dir e then n # dir_names es else dir_names es)"
  "file_names ((n, e) # es) = (if is_dir e then file_names es else n # file_names es)"
  by (simp_all add: dir_names_def file_names_def)

lemma names_subset: "set (dir_names es) \<subseteq> fst ` set es" "set (file_names es) \<subseteq> fst ` set es"
  by (auto simp: dir_names_def file_names_def)

lemma wf_entries_iff: "wf_entries es \<longleftrightarrow> (\<forall>(n, e) \<in> set es. proper n \<and> wf_node e)"
  by (induction es) auto

lemma wf_entries_names: "wf_entries es \<Longrightarrow> n \<in> fst ` set es \<Longrightarrow> proper n"
  by (auto simp: wf_entries_iff)

text \<open>The walk lists the files of the tree, each under the directory that holds it.\<close>

lemma walk_tree_files:
  "concat (map (\<lambda>(r, ds, fs). map (path_join r) fs) (walk d node)) =
     map (foldl path_join d) (tree_files node)"
  "concat (map (\<lambda>(r, ds, fs). map (path_join r) fs) (walk_dirs d es)) =
     map (foldl path_join d) (entries_files es)"
proof (induction d node and d es rule: walk_walk_dirs.induct)
  case (2 d es)
  then show ?case by (simp add: comp_def)
next
  case (4 d n e es)
  then show ?case by (cases e) (simp_all add: comp_def)
qed simp_all

text \<open>In a well-formed tree every name the walk lists is a name.\<close>

lemma walk_proper:
  "wf_node node \<Longrightarrow> (r, ds, fs) \<in> set (walk d node) \<Longrightarrow> f \<in> set fs \<Longrightarrow> proper f"
  "wf_entries es \<Longrightarrow> (r, ds, fs) \<in> set (walk_dirs d es) \<Longrightarrow> f \<in> set fs \<Longrightarrow> proper f"
proof (induction d node and d es arbitrary: r ds fs and r ds fs rule: walk_walk_dirs.induct)
  case (2 d es)
  then show ?case
    using names_subset(2) [of es] by (auto dest: wf_entries_names)
next
  case (4 d n e es)
  then show ?case by (auto split: if_splits)
qed simp_all

text \<open>In a well-formed tree no file is listed twice.\<close>

lemma tree_files_nonempty:
  "cs \<in> set (tree_files node) \<Longrightarrow> cs \<noteq> []"
  "cs \<in> set (entries_files es) \<Longrightarrow> cs \<noteq> []"
  by (induction node and es arbitrary: cs and cs rule: tree_files_entries_files.induct) auto

lemma tree_files_proper:
  "wf_node node \<Longrightarrow> cs \<in> set (tree_files node) \<Longrightarrow> list_all proper cs"
  "wf_entries es \<Longrightarrow> cs \<in> set (entries_files es) \<Longrightarrow> list_all proper cs"
proof (induction node and es arbitrary: cs and cs rule: tree_files_entries_files.induct)
  case (2 es)
  then show ?case
    using names_subset(2) [of es] by (auto dest: wf_entries_names)
next
  case (4 n e es)
  then show ?case by auto
qed simp_all

lemma entries_files_hd:
  "cs \<in> set (entries_files es) \<Longrightarrow> hd cs \<in> fst ` set es \<and> 2 \<le> length cs"
proof (induction es)
  case Nil
  then show ?case by simp
next
  case (Cons a es)
  obtain n e where [simp]: "a = (n, e)" by (cases a)
  from Cons show ?case
    using tree_files_nonempty(1) [of _ e] by (auto simp: Suc_le_eq)
qed

lemma distinct_tree_files:
  "wf_node node \<Longrightarrow> distinct (tree_files node)"
  "wf_entries es \<Longrightarrow> distinct (map fst es) \<Longrightarrow> distinct (entries_files es)"
proof (induction node and es rule: tree_files_entries_files.induct)
  case (2 es)
  have "distinct (file_names es)"
    using 2(2) by (auto simp: file_names_def distinct_map_filter)
  then have "distinct (map (\<lambda>n. [n]) (file_names es))"
    by (simp add: distinct_map inj_on_def)
  moreover have "set (map (\<lambda>n. [n]) (file_names es)) \<inter> set (entries_files es) = {}"
    by (auto dest: entries_files_hd)
  ultimately show ?case using 2 by simp
next
  case (4 n e es)
  have "set (map ((#) n) (tree_files e)) \<inter> set (entries_files es) = {}"
    using 4(4) by (auto dest!: entries_files_hd simp: image_iff)
  with 4 show ?case
    by (simp add: distinct_map inj_on_def)
qed simp_all

lemma walk_dirs_append: "walk_dirs d (es @ es') = walk_dirs d es @ walk_dirs d es'"
  by (induction es) auto

text \<open>The walk of a directory holds the walk of each of its subdirectories, in one piece.\<close>

lemma walk_subdir:
  assumes "(n, Dir ds) \<in> set es"
  shows "sublist (walk (path_join d n) (Dir ds)) (walk d (Dir es))"
proof -
  from assms obtain es1 es2 where "es = es1 @ (n, Dir ds) # es2"
    by (auto dest: split_list)
  then have "walk d (Dir es) =
      ((d, dir_names es, file_names es) # walk_dirs d es1) @ walk (path_join d n) (Dir ds) @ walk_dirs d es2"
    by (simp add: walk_dirs_append)
  then show ?thesis
    unfolding sublist_def by blast
qed

lemma sublist_concat_map:
  assumes "sublist xs ys"
  shows "sublist (concat (map f xs)) (concat (map f ys))"
proof -
  from assms obtain ps ss where "ys = ps @ xs @ ss"
    by (auto simp: sublist_def)
  then have "concat (map f ys) = concat (map f ps) @ concat (map f xs) @ concat (map f ss)"
    by simp
  then show ?thesis
    unfolding sublist_def by blast
qed

end
