(* ===== verification/Input_Parser.thy ===== *)
theory Input_Parser
  imports File_System
begin

text \<open>
  \<^verbatim>\<open>main\<close> of \<^verbatim>\<open>src/bin/input_parser.py\<close>: it reads a table, takes one column of
  it as a list of directories and prints the files below each of them, all
  of them with \<^verbatim>\<open>--scan_all\<close> and only those named \<^verbatim>\<open>*.fq.gz\<close> without.
  It is \<open>parser_main\<close> here, and its arguments are \<open>parser_args\<close>, because
  \<^verbatim>\<open>src/bin/data_grouper.py\<close> has a \<^verbatim>\<open>main\<close> too.

  What the script reads from the outside is the environment \<open>env\<close>: the
  working directory, the tree that the system finds at a path (nothing, when
  \<^verbatim>\<open>os.path.exists\<close> is false), and the table that a reader returns for a
  file name, or the message of the exception it raises. The environment does
  not change during a run. One \<open>lookup\<close> answers both \<^verbatim>\<open>os.path.exists\<close> and
  \<^verbatim>\<open>os.walk\<close>, and nothing relates the tree at a path to the trees at the
  paths below it: the theorems hold for every such environment, the real
  file systems among them. What the script prints is the list of the lines
  of its standard output; a run that fails returns its failure together with
  the lines printed before it.
\<close>

section \<open>The command line and the table\<close>

text \<open>
  The namespace of lines 8 to 12: \<^verbatim>\<open>--input\<close> is required, \<^verbatim>\<open>--col\<close> has the
  default \<^verbatim>\<open>Secondary Path\<close>, \<^verbatim>\<open>--scan_all\<close> is a flag.
\<close>

record parser_args =
  input :: string
  col :: string
  scan_all :: bool

definition default_parser_args :: "string \<Rightarrow> parser_args" where
  "default_parser_args i = \<lparr>input = i, col = ''Secondary Path'', scan_all = False\<rparr>"

text \<open>Lines 16 to 21: the reader is chosen by the end of the file name.\<close>

datatype reader = ReadExcel | ReadCsv | ReadTsv

definition choose_reader :: "string \<Rightarrow> reader" where
  "choose_reader name =
     (if endswith name ''.xlsx'' then ReadExcel
      else if endswith name ''.csv'' then ReadCsv
      else ReadTsv)"

text \<open>
  A cell of the column of paths is text, or \<^verbatim>\<open>nan\<close> where the field is empty.
  A table is its columns by name. Columns of numbers are outside the model.
\<close>

datatype path_cell = PathStr string | PathNaN

type_synonym table = "(string \<times> path_cell list) list"

record env =
  cwd :: string
  lookup :: "string \<Rightarrow> node option"
  read_table :: "reader \<Rightarrow> string \<Rightarrow> (string, table) result"

text \<open>
  How a run can fail: \<^verbatim>\<open>sys.exit(1)\<close> after the message of line 23 on the
  standard error, an uncaught \<^verbatim>\<open>KeyError\<close> when the table has no column of
  the name asked for (line 27), and an uncaught \<^verbatim>\<open>TypeError\<close> when
  \<^verbatim>\<open>os.path.exists\<close> is given \<^verbatim>\<open>nan\<close> (line 28).
\<close>

datatype failure = SysExit nat string | KeyError string | PathTypeError

section \<open>Scanning\<close>

text \<open>
  Line 34, the filter; lines 32 to 35, what is printed for one directory of
  the walk; lines 31 to 35, what is printed for one folder of the table.
\<close>

definition wanted :: "parser_args \<Rightarrow> string \<Rightarrow> bool" where
  "wanted a file \<longleftrightarrow> scan_all a \<or> endswith file ''.fq.gz''"

definition print_files ::
  "parser_args \<Rightarrow> string \<Rightarrow> string \<times> string list \<times> string list \<Rightarrow> string list" where
  "print_files a wd = (\<lambda>(root_dir, dirs, files).
     map (\<lambda>file. abspath wd (path_join root_dir file)) (filter (wanted a) files))"

definition scan_tree :: "parser_args \<Rightarrow> string \<Rightarrow> string \<Rightarrow> node \<Rightarrow> string list" where
  "scan_tree a wd folder_path node = concat (map (print_files a wd) (walk folder_path node))"

text \<open>
  Lines 28 to 35, one iteration of the loop over the column, on the lines
  printed so far. A folder that does not exist is skipped.
\<close>

definition scan_folder ::
  "env \<Rightarrow> parser_args \<Rightarrow> string list \<Rightarrow> path_cell \<Rightarrow> (failure \<times> string list, string list) result"
  where
  "scan_folder e a out c =
     (case c of
        PathNaN \<Rightarrow> Inl (PathTypeError, out)
      | PathStr folder_path \<Rightarrow>
          (case lookup e folder_path of
             None \<Rightarrow> Inr out
           | Some node \<Rightarrow> Inr (out @ scan_tree a (cwd e) folder_path node)))"

text \<open>
  Lines 15 to 35. The \<^verbatim>\<open>try\<close> of line 15 covers the reading only: a missing
  column is not caught.
\<close>

definition parser_main :: "env \<Rightarrow> parser_args \<Rightarrow> (failure \<times> string list, string list) result" where
  "parser_main e a =
     (case read_table e (choose_reader (input a)) (input a) of
        Inl msg \<Rightarrow> Inl (SysExit 1 (''Error reading file: '' @ msg), [])
      | Inr df \<Rightarrow>
          (case map_of df (col a) of
             None \<Rightarrow> Inl (KeyError (col a), [])
           | Some column \<Rightarrow> for_each (scan_folder e a) [] column))"

text \<open>The lines on the standard output after a run, whether it failed or not.\<close>

definition stdout_of :: "(failure \<times> string list, string list) result \<Rightarrow> string list" where
  "stdout_of r = (case r of Inl (f, out) \<Rightarrow> out | Inr out \<Rightarrow> out)"

section \<open>What a run prints\<close>

text \<open>
  What a run should print for one cell, the cells a run gets to (those before
  the first empty one), and the environments in which the working directory
  is absolute and every tree is well formed, as the system provides them.
\<close>

definition cell_output :: "env \<Rightarrow> parser_args \<Rightarrow> path_cell \<Rightarrow> string list" where
  "cell_output e a c =
     (case c of
        PathNaN \<Rightarrow> []
      | PathStr p \<Rightarrow> (case lookup e p of None \<Rightarrow> [] | Some node \<Rightarrow> scan_tree a (cwd e) p node))"

definition scanned :: "path_cell list \<Rightarrow> path_cell list" where
  "scanned column = takeWhile (\<lambda>c. c \<noteq> PathNaN) column"

definition wf_env :: "env \<Rightarrow> bool" where
  "wf_env e \<longleftrightarrow> isabs (cwd e) \<and> (\<forall>p node. lookup e p = Some node \<longrightarrow> wf_node node)"

section \<open>Sample data\<close>

text \<open>
  A folder \<^verbatim>\<open>data\<close> with two files and a subfolder with one file, and a table
  whose column of paths names it and a folder that does not exist.
\<close>

definition sample_tree :: node where
  "sample_tree =
     Dir [(''a.fq.gz'', File), (''notes.txt'', File), (''run1'', Dir [(''b.fq.gz'', File)])]"

definition sample_table :: table where
  "sample_table = [(''Sample'', [PathStr ''s1'', PathStr ''s2'']),
                   (''Secondary Path'', [PathStr ''data'', PathStr ''gone''])]"

definition sample_env :: env where
  "sample_env =
     \<lparr>cwd = ''/work'',
      lookup = [''data'' \<mapsto> sample_tree],
      read_table = (\<lambda>r name. if r = ReadCsv \<and> name = ''table.csv'' then Inr sample_table
                               else Inl ''No such file or directory'')\<rparr>"

text \<open>A table that names the folder and, after it, its subfolder.\<close>

definition nested_env :: env where
  "nested_env =
     \<lparr>cwd = ''/work'',
      lookup = [''data'' \<mapsto> sample_tree, ''data/run1'' \<mapsto> Dir [(''b.fq.gz'', File)]],
      read_table = (\<lambda>r name. Inr [(''Secondary Path'', [PathStr ''data'', PathStr ''data/run1''])])\<rparr>"

section \<open>Facts about the loop\<close>

lemma stdout_of_simps [simp]:
  "stdout_of (Inl (f, out)) = out" "stdout_of (Inr out) = out"
  by (simp_all add: stdout_of_def)

lemma scanned_simps [simp]:
  "scanned [] = []"
  "scanned (PathNaN # cs) = []"
  "scanned (PathStr p # cs) = PathStr p # scanned cs"
  by (simp_all add: scanned_def)

lemma scanned_all: "PathNaN \<notin> set cs \<Longrightarrow> scanned cs = cs"
  by (auto simp: scanned_def takeWhile_eq_all_conv)

lemma wanted_simps [simp]:
  "wanted (a\<lparr>scan_all := False\<rparr>) = (\<lambda>f. endswith f ''.fq.gz'')"
  "wanted (a\<lparr>scan_all := True\<rparr>) = (\<lambda>f. True)"
  by (simp_all add: fun_eq_iff wanted_def)

lemma scan_folder_simps [simp]:
  "scan_folder e a out PathNaN = Inl (PathTypeError, out)"
  "scan_folder e a out (PathStr p) = Inr (out @ cell_output e a (PathStr p))"
  by (simp_all add: scan_folder_def cell_output_def split: option.splits)

text \<open>The loop over the column, as a map over the cells before the first empty one.\<close>

lemma for_each_scan_folder:
  "for_each (scan_folder e a) out column =
     (if PathNaN \<in> set column
      then Inl (PathTypeError, out @ concat (map (cell_output e a) (scanned column)))
      else Inr (out @ concat (map (cell_output e a) (scanned column))))"
proof (induction column arbitrary: out)
  case Nil
  show ?case by simp
next
  case (Cons c column)
  show ?case by (cases c) (simp_all add: Cons.IH)
qed

lemma stdout_for_each_scan_folder [simp]:
  "stdout_of (for_each (scan_folder e a) [] column) = concat (map (cell_output e a) (scanned column))"
  by (simp add: for_each_scan_folder)

text \<open>What \<open>parser_main\<close> prints, in every case.\<close>

lemma stdout_parser_main:
  "stdout_of (parser_main e a) =
     (case read_table e (choose_reader (input a)) (input a) of
        Inl msg \<Rightarrow> []
      | Inr df \<Rightarrow> (case map_of df (col a) of
                    None \<Rightarrow> []
                  | Some column \<Rightarrow> concat (map (cell_output e a) (scanned column))))"
  by (simp add: parser_main_def split: sum.splits option.splits)

section \<open>Facts about scanning a tree\<close>

lemma printed_endswith:
  assumes "isabs wd" and "proper f" and "CHR ''/'' \<notin> set suf"
  shows "endswith (abspath wd (path_join r f)) suf \<longleftrightarrow> endswith f suf"
proof -
  from assms(1,2) obtain d where "abspath wd (path_join r f) = d @ CHR ''/'' # f"
    using abspath_basename by blast
  with assms(3) show ?thesis by (simp add: endswith_basename)
qed

lemma print_files_filter:
  assumes "isabs wd" and "\<forall>f \<in> set fs. proper f"
  shows "print_files (a\<lparr>scan_all := False\<rparr>) wd (r, ds, fs) =
           filter (\<lambda>l. endswith l ''.fq.gz'') (print_files (a\<lparr>scan_all := True\<rparr>) wd (r, ds, fs))"
proof -
  have "filter (\<lambda>f. endswith (abspath wd (path_join r f)) ''.fq.gz'') fs =
      filter (\<lambda>f. endswith f ''.fq.gz'') fs"
    using assms by (intro filter_cong refl printed_endswith) simp_all
  then show ?thesis
    by (simp add: print_files_def filter_map comp_def)
qed

lemma scan_tree_filter:
  assumes "isabs wd" and "wf_node node"
  shows "scan_tree (a\<lparr>scan_all := False\<rparr>) wd p node =
           filter (\<lambda>l. endswith l ''.fq.gz'') (scan_tree (a\<lparr>scan_all := True\<rparr>) wd p node)"
proof -
  have "map (print_files (a\<lparr>scan_all := False\<rparr>) wd) (walk p node) =
      map (filter (\<lambda>l. endswith l ''.fq.gz'') \<circ> print_files (a\<lparr>scan_all := True\<rparr>) wd) (walk p node)"
  proof (rule map_cong [OF refl])
    fix w
    assume w: "w \<in> set (walk p node)"
    obtain r ds fs where [simp]: "w = (r, ds, fs)" by (cases w)
    from w assms(2) have "\<forall>f \<in> set fs. proper f"
      by (auto dest: walk_proper(1))
    with assms(1) show "print_files (a\<lparr>scan_all := False\<rparr>) wd w =
        (filter (\<lambda>l. endswith l ''.fq.gz'') \<circ> print_files (a\<lparr>scan_all := True\<rparr>) wd) w"
      by (simp add: print_files_filter)
  qed
  then show ?thesis
    by (simp only: scan_tree_def filter_concat map_map)
qed

lemma cell_output_filter:
  assumes "wf_env e"
  shows "cell_output e (a\<lparr>scan_all := False\<rparr>) c =
           filter (\<lambda>l. endswith l ''.fq.gz'') (cell_output e (a\<lparr>scan_all := True\<rparr>) c)"
  using assms by (auto simp: cell_output_def wf_env_def scan_tree_filter split: path_cell.splits option.splits)

lemma scan_tree_scan_all:
  "scan_tree (a\<lparr>scan_all := True\<rparr>) wd p node =
     map (abspath wd) (concat (map (\<lambda>(r, ds, fs). map (path_join r) fs) (walk p node)))"
proof -
  have "print_files (a\<lparr>scan_all := True\<rparr>) wd =
      (\<lambda>w. map (abspath wd) ((\<lambda>(r, ds, fs). map (path_join r) fs) w))"
    by (simp add: print_files_def fun_eq_iff)
  then show ?thesis
    by (simp add: scan_tree_def map_concat comp_def)
qed

lemma scan_tree_absolute:
  assumes "isabs wd" and "l \<in> set (scan_tree a wd p node)"
  shows "isabs l \<and> normpath l = l"
  using assms by (auto simp: scan_tree_def print_files_def isabs_abspath abspath_normal)

lemma cell_output_absolute:
  assumes "isabs (cwd e)" and "l \<in> set (cell_output e a c)"
  shows "isabs l \<and> normpath l = l"
  using assms by (auto simp: cell_output_def split: path_cell.splits option.splits dest: scan_tree_absolute)

text \<open>The lines of a folder are distinct, and hold the lines of each of its subfolders.\<close>

lemma distinct_scan_tree_all:
  assumes "isabs wd" and "wf_node node"
  shows "distinct (scan_tree (a\<lparr>scan_all := True\<rparr>) wd p node)"
proof -
  have "inj_on (\<lambda>cs. abspath wd (foldl path_join p cs)) (set (tree_files node))"
    using assms
    by (intro inj_onI abspath_below_inject [of wd _ _ p])
      (auto dest: tree_files_proper(1) tree_files_nonempty(1))
  with assms(2) show ?thesis
    by (simp add: scan_tree_scan_all walk_tree_files distinct_map distinct_tree_files(1) comp_def)
qed

lemma scan_tree_subfolder:
  assumes "(n, Dir ds) \<in> set es"
  shows "sublist (scan_tree a wd (path_join p n) (Dir ds)) (scan_tree a wd p (Dir es))"
  unfolding scan_tree_def using assms by (intro sublist_concat_map walk_subdir)

lemma count_list_pos: "x \<in> set xs \<Longrightarrow> Suc 0 \<le> count_list xs x"
  by (induction xs) auto

section \<open>Evaluation\<close>

text \<open>The rules that run \<open>parser_main\<close> on the sample data, and two runs.\<close>

lemmas parser_eval = parser_main_def choose_reader_def scan_folder_def scan_tree_def print_files_def
  wanted_def default_parser_args_def sample_env_def sample_table_def sample_tree_def nested_env_def
  dir_names_def file_names_def

lemma sample_run:
  "parser_main sample_env (default_parser_args ''table.csv'') =
     Inr [''/work/data/a.fq.gz'', ''/work/data/run1/b.fq.gz'']"
  by (simp add: parser_eval path_eval)

lemma sample_run_all:
  "parser_main sample_env (default_parser_args ''table.csv'' \<lparr>scan_all := True\<rparr>) =
     Inr [''/work/data/a.fq.gz'', ''/work/data/notes.txt'', ''/work/data/run1/b.fq.gz'']"
  by (simp add: parser_eval path_eval)

lemma wf_sample_env: "wf_env sample_env"
  by (simp add: wf_env_def sample_env_def sample_tree_def isabs_def proper_def)

section \<open>What a run prints and how it fails\<close>

text \<open>
  C19 (functional). When the table can be read and has the column, the run
  prints, folder by folder in the order of the column, the files of every
  folder that exists, and stops at the first empty cell; a folder that does
  not exist adds nothing.
\<close>

theorem parser_main_output:
  assumes "read_table e (choose_reader (input a)) (input a) = Inr df"
    and "map_of df (col a) = Some column"
  shows "stdout_of (parser_main e a) = concat (map (cell_output e a) (scanned column))"
  using assms by (simp add: stdout_parser_main)

theorem parser_main_output_witness:
  "read_table sample_env (choose_reader (input (default_parser_args ''table.csv'')))
     (input (default_parser_args ''table.csv'')) = Inr sample_table \<and>
   map_of sample_table (col (default_parser_args ''table.csv'')) = Some [PathStr ''data'', PathStr ''gone''] \<and>
   stdout_of (parser_main sample_env (default_parser_args ''table.csv'')) =
     concat (map (cell_output sample_env (default_parser_args ''table.csv''))
       (scanned [PathStr ''data'', PathStr ''gone'']))"
  using parser_main_output [of sample_env "default_parser_args ''table.csv''" sample_table
      "[PathStr ''data'', PathStr ''gone'']"]
  by (simp add: default_parser_args_def sample_env_def sample_table_def choose_reader_def endswith_def)

text \<open>
  C20 (error). A run fails in one of three ways: the table cannot be read,
  and the run exits with status 1 after the message of line 23, having
  printed nothing; the table has no column of the name asked for, which is
  an uncaught \<^verbatim>\<open>KeyError\<close>, with nothing printed; or a cell of the column is
  empty, which is an uncaught \<^verbatim>\<open>TypeError\<close> after the files of the folders
  before that cell have been printed.
\<close>

theorem parser_main_failures:
  "parser_main e a = Inl (f, out) \<longleftrightarrow>
     (\<exists>msg. read_table e (choose_reader (input a)) (input a) = Inl msg \<and>
        f = SysExit 1 (''Error reading file: '' @ msg) \<and> out = []) \<or>
     (\<exists>df. read_table e (choose_reader (input a)) (input a) = Inr df \<and>
        map_of df (col a) = None \<and> f = KeyError (col a) \<and> out = []) \<or>
     (\<exists>df column. read_table e (choose_reader (input a)) (input a) = Inr df \<and>
        map_of df (col a) = Some column \<and> PathNaN \<in> set column \<and> f = PathTypeError \<and>
        out = concat (map (cell_output e a) (scanned column)))"
  by (auto simp: parser_main_def for_each_scan_folder split: sum.splits option.splits)

text \<open>
  C21 (equivalence). Without \<^verbatim>\<open>--scan_all\<close> a run prints exactly those lines
  of the run with \<^verbatim>\<open>--scan_all\<close> that end with \<^verbatim>\<open>.fq.gz\<close>, in the same
  order: the filter on the file name is a filter on the printed path.
\<close>

theorem parser_default_filters_scan_all:
  assumes "wf_env e"
  shows "stdout_of (parser_main e (a\<lparr>scan_all := False\<rparr>)) =
           filter (\<lambda>l. endswith l ''.fq.gz'') (stdout_of (parser_main e (a\<lparr>scan_all := True\<rparr>)))"
proof -
  have "cell_output e (a\<lparr>scan_all := False\<rparr>) =
      (\<lambda>c. filter (\<lambda>l. endswith l ''.fq.gz'') (cell_output e (a\<lparr>scan_all := True\<rparr>) c))"
    by (simp add: fun_eq_iff cell_output_filter [OF assms])
  then show ?thesis
    by (simp add: stdout_parser_main filter_concat comp_def split: sum.splits option.splits)
qed

theorem parser_default_filters_scan_all_witness:
  "wf_env sample_env \<and>
   stdout_of (parser_main sample_env (default_parser_args ''table.csv'' \<lparr>scan_all := False\<rparr>)) =
     filter (\<lambda>l. endswith l ''.fq.gz'')
       (stdout_of (parser_main sample_env (default_parser_args ''table.csv'' \<lparr>scan_all := True\<rparr>)))"
  using parser_default_filters_scan_all [of sample_env "default_parser_args ''table.csv''"]
  by (simp add: wf_sample_env)

text \<open>
  C22 (refinement). With \<^verbatim>\<open>--scan_all\<close> the lines printed for a folder are the
  files of its tree, each once, in the order of the walk, each as the
  absolute path of the folder joined with the names that lead to the file.
\<close>

theorem scan_all_lists_tree:
  "scan_tree (a\<lparr>scan_all := True\<rparr>) wd p node =
     map (\<lambda>cs. abspath wd (foldl path_join p cs)) (tree_files node)"
  by (simp add: scan_tree_scan_all walk_tree_files comp_def)

text \<open>
  C23 (safety). In an absolute working directory every printed line is an
  absolute path in normal form: it starts with a slash, and normalising it
  changes nothing.
\<close>

theorem parser_lines_absolute:
  assumes "isabs (cwd e)" and "l \<in> set (stdout_of (parser_main e a))"
  shows "isabs l \<and> normpath l = l"
  using assms
  by (auto simp: stdout_parser_main split: sum.splits option.splits dest: cell_output_absolute)

theorem parser_lines_absolute_witness:
  "isabs (cwd sample_env) \<and>
   ''/work/data/a.fq.gz'' \<in> set (stdout_of (parser_main sample_env (default_parser_args ''table.csv''))) \<and>
   isabs ''/work/data/a.fq.gz'' \<and> normpath ''/work/data/a.fq.gz'' = ''/work/data/a.fq.gz''"
  using parser_lines_absolute [of sample_env "''/work/data/a.fq.gz''" "default_parser_args ''table.csv''"]
  by (simp add: sample_run) (simp add: sample_env_def isabs_def)

section \<open>Lines that repeat\<close>

text \<open>
  C26 (safety). The lines printed for one folder are distinct, with or
  without \<^verbatim>\<open>--scan_all\<close>: in an absolute working directory, and a tree in
  which no directory has two entries of one name, no file is printed twice,
  because the path printed for a file names the directories that lead to it.
\<close>

theorem scan_tree_distinct:
  assumes "isabs wd" and "wf_node node"
  shows "distinct (scan_tree a wd p node)"
proof (cases "scan_all a")
  case True
  then have "a = a\<lparr>scan_all := True\<rparr>" by simp
  with distinct_scan_tree_all [OF assms, of a p] show ?thesis by simp
next
  case False
  then have "a = a\<lparr>scan_all := False\<rparr>" by simp
  then have "scan_tree a wd p node =
      filter (\<lambda>l. endswith l ''.fq.gz'') (scan_tree (a\<lparr>scan_all := True\<rparr>) wd p node)"
    using scan_tree_filter [OF assms, of a p] by simp
  with distinct_scan_tree_all [OF assms, of a p] show ?thesis by simp
qed

theorem scan_tree_distinct_witness:
  "isabs ''/work'' \<and> wf_node sample_tree \<and>
   distinct (scan_tree (default_parser_args ''table.csv'') ''/work'' ''data'' sample_tree)"
  using scan_tree_distinct [of "''/work''" sample_tree "default_parser_args ''table.csv''" "''data''"]
  by (simp add: isabs_def sample_tree_def proper_def)

text \<open>
  C27 (functional). Across folders lines do repeat: when the column names a
  folder and, in a later row, a directory inside it, every line of the inner
  directory is printed at least twice, once for each row. Nothing in the
  script removes the repetition.
\<close>

theorem parser_nested_folders_repeat:
  assumes "read_table e (choose_reader (input a)) (input a) = Inr df"
    and "map_of df (col a) = Some (pre @ PathStr p # mid @ PathStr (path_join p n) # post)"
    and "PathNaN \<notin> set (pre @ mid)"
    and "lookup e p = Some (Dir es)" and "lookup e (path_join p n) = Some (Dir ds)"
    and "(n, Dir ds) \<in> set es"
    and "l \<in> set (scan_tree a (cwd e) (path_join p n) (Dir ds))"
  shows "2 \<le> count_list (stdout_of (parser_main e a)) l"
proof -
  let ?sub = "scan_tree a (cwd e) (path_join p n) (Dir ds)"
  have "set ?sub \<subseteq> set (scan_tree a (cwd e) p (Dir es))"
    using assms(6) by (intro set_mono_sublist scan_tree_subfolder)
  with assms(7) have "1 \<le> count_list (scan_tree a (cwd e) p (Dir es)) l" "1 \<le> count_list ?sub l"
    by (auto intro: count_list_pos)
  moreover have "scanned (pre @ PathStr p # mid @ PathStr (path_join p n) # post) =
      pre @ PathStr p # mid @ PathStr (path_join p n) # scanned post"
    using assms(3) by (simp add: scanned_def takeWhile_append)
  ultimately show ?thesis
    using assms(1,2,4,5) by (simp add: stdout_parser_main cell_output_def)
qed

theorem parser_nested_folders_repeat_witness:
  "read_table nested_env (choose_reader (input (default_parser_args ''table.csv'')))
     (input (default_parser_args ''table.csv'')) =
     Inr [(''Secondary Path'', [PathStr ''data'', PathStr ''data/run1''])] \<and>
   map_of [(''Secondary Path'', [PathStr ''data'', PathStr ''data/run1''])]
     (col (default_parser_args ''table.csv'')) =
     Some ([] @ PathStr ''data'' # [] @ PathStr (path_join ''data'' ''run1'') # []) \<and>
   PathNaN \<notin> set ([] @ []) \<and>
   lookup nested_env ''data'' =
     Some (Dir [(''a.fq.gz'', File), (''notes.txt'', File), (''run1'', Dir [(''b.fq.gz'', File)])]) \<and>
   lookup nested_env (path_join ''data'' ''run1'') = Some (Dir [(''b.fq.gz'', File)]) \<and>
   (''run1'', Dir [(''b.fq.gz'', File)]) \<in>
     set [(''a.fq.gz'', File), (''notes.txt'', File), (''run1'', Dir [(''b.fq.gz'', File)])] \<and>
   ''/work/data/run1/b.fq.gz'' \<in>
     set (scan_tree (default_parser_args ''table.csv'') (cwd nested_env) (path_join ''data'' ''run1'')
       (Dir [(''b.fq.gz'', File)])) \<and>
   2 \<le> count_list (stdout_of (parser_main nested_env (default_parser_args ''table.csv'')))
     ''/work/data/run1/b.fq.gz''"
  using parser_nested_folders_repeat [of nested_env "default_parser_args ''table.csv''"
      "[(''Secondary Path'', [PathStr ''data'', PathStr ''data/run1''])]" "[]" "''data''" "[]"
      "''run1''" "[]" "[(''a.fq.gz'', File), (''notes.txt'', File), (''run1'', Dir [(''b.fq.gz'', File)])]"
      "[(''b.fq.gz'', File)]" "''/work/data/run1/b.fq.gz''"]
  by (simp add: parser_eval path_eval)

end
