(* ===== verification/Spec2Isabelle.thy ===== *)
theory Spec2Isabelle
  imports Grouper Input_Parser
begin

text \<open>
  \<^bold>\<open>A verification of md5Data_Grouper.\<close>

  The repository holds two command-line scripts. \<^verbatim>\<open>src/bin/input_parser.py\<close>
  reads a table of directories and prints the files below them.
  \<^verbatim>\<open>src/bin/data_grouper.py\<close> reads a table of files (path, size, digest),
  writes it out whole, and cuts it, in order, into groups whose sizes add up
  to at most a limit, one output file per group. The two run one after the
  other in a pipeline and share no state: what passes between them is a
  file that a digest tool, which is not part of the repository, writes from
  the lines the first one prints.

  \<^bold>\<open>The theories.\<close>
  \<^item> \<open>Grouper_Prelude\<close>: the type of results of code that may raise, the
    \<^verbatim>\<open>for\<close> loop over a body that may raise (\<open>for_each\<close>) with its invariant
    rule and the splitting of a loop that raised, and shared facts about
    lists.
  \<^item> \<open>Py_Values\<close>: the Python values the grouper computes with. A cell of the
    \<^verbatim>\<open>Size\<close> column is a number or a string; a number is an integer value or
    \<^verbatim>\<open>nan\<close>, and the numbers are a commutative monoid under \<^verbatim>\<open>+\<close>; the limit
    is a float, finite, infinite or \<^verbatim>\<open>nan\<close>. \<open>py_add\<close> is \<^verbatim>\<open>+\<close> of lines 32
    and 39 (a string raises \<^verbatim>\<open>TypeError\<close>), \<open>py_gt\<close> is \<^verbatim>\<open>>\<close> of line 32,
    \<open>scale_pow2\<close> is the float product of line 22.
  \<^item> \<open>Manifest\<close>: \<open>row\<close> (the columns of line 14), \<open>args\<close> (the options of
    lines 7 to 11, with their defaults), \<open>limit_bytes\<close> (line 22), the
    predicates that say which tables are well formed, and sample rows and
    arguments for the instances of the theorems.
  \<^item> \<open>Writer\<close>: the disk as the log of the writes, \<open>to_excel\<close>, the names of
    the output files (lines 17 and 47, with the \<^verbatim>\<open>{count:03d}\<close> format), and
    \<open>save_group\<close> (lines 45 to 48).
  \<^item> \<open>Greedy_Spec\<close>: what section 4.1 of spec.md asks for, over any records
    with a size in an additive monoid: as the algorithm of that section
    (\<open>greedy\<close>), as a recursion on the records still to come
    (\<open>greedy_from\<close>), as a property that exactly one list of groups has
    (\<open>greedy_partition\<close>), and as the contract with its failure conditions
    (\<open>group\<close>).
  \<^item> \<open>Grouper\<close>: the state of the loop (\<open>loop_state\<close>: the three local
    variables and the disk), one iteration (\<open>step\<close>, lines 29 to 39, with
    \<open>close_group\<close> for lines 33 to 36), the loop (\<open>run_loop\<close>), the write after
    it (\<open>flush\<close>, lines 42 and 43), \<open>main\<close>, the reachable states of the
    loop and its invariant \<open>loop_inv\<close>, and the theorems about \<open>main\<close>.
  \<^item> \<open>Py_Path\<close>: \<^verbatim>\<open>str.endswith\<close> and the functions of \<^verbatim>\<open>os.path\<close> that
    line 35 of the parser calls (\<open>path_join\<close>, \<open>normpath\<close>, \<open>abspath\<close>). Line
    35 is only the call: the definitions follow \<^verbatim>\<open>posixpath\<close> of CPython on
    \<^verbatim>\<open>str\<close> paths. With them the normal form of a path and the shape of a
    path below a folder.
  \<^item> \<open>File_System\<close>: directory trees (\<open>node\<close>), \<^verbatim>\<open>os.walk\<close> over them
    (\<open>walk\<close>), and the files a tree holds (\<open>tree_files\<close>).
  \<^item> \<open>Input_Parser\<close>: the options (\<open>parser_args\<close>), the choice of the
    reader (\<open>choose_reader\<close>, lines 16 to 21), the environment the script
    reads from (\<open>env\<close>), one iteration of the loop over the column
    (\<open>scan_folder\<close>, lines 28 to 35, with \<open>scan_tree\<close>, \<open>print_files\<close> and
    \<open>wanted\<close> for the loops inside it), \<open>parser_main\<close> (lines 15 to 35), and
    the theorems about what it prints and how it fails.
  \<^item> This theory: the scenarios of section 8 of spec.md, run on \<open>main\<close>, as
    worked examples.

  \<^bold>\<open>How the model reads the code.\<close> Reading the table is input: \<open>main\<close>
  takes the rows \<^verbatim>\<open>read_csv\<close> returned. Writing is an effect on the disk,
  which \<open>main\<close> returns; the disk is the list of writes in order, so the
  order in which the files appear is part of every statement. An exception
  is a value: \<open>main\<close> returns \<open>Inl (e, d)\<close> when it raises \<open>e\<close> with the disk
  \<open>d\<close> written so far, and \<open>Inr d\<close> when it returns. Python's integers are
  unbounded and are \<open>int\<close>; the counter of groups starts at 1, only grows,
  and is \<open>nat\<close>. The loop runs once over a finite list, so it is a
  structural recursion and needs no fuel. The one bound of the model is the
  range of the doubles, \<open>max_double\<close>, in the product of line 22.

  The parser reads from the outside, and what it reads is a parameter of
  \<open>parser_main\<close>: the working directory, the tree at a path, the table a
  reader returns or the message of its exception. Its output is the list of
  the lines it prints, and a run that fails returns the failure with the
  lines printed before it. The walk is a recursion on the tree, which is
  finite, so it needs no fuel either. Both scripts are called \<^verbatim>\<open>main\<close> in
  the source; the parser's is \<open>parser_main\<close> here.

  \<^bold>\<open>How the proofs are built.\<close> One iteration of the loop is one
  \<open>greedy_step\<close> of the abstract algorithm on the abstraction of the state
  (\<open>step_abs\<close>) and keeps the invariant (\<open>step_inv\<close>); \<open>for_each_invariant\<close>
  lifts both to the loop (\<open>run_loop_init\<close>). From there \<open>main_returns_eq\<close>
  says what \<open>main\<close> returns and \<open>main_raises_eq\<close> what it raises, and every
  theorem about \<open>main\<close> is a few lines over one of the two and over the
  facts about \<open>greedy\<close>, which are proved once, by induction on the rows
  still to come. For the parser, \<open>for_each_scan_folder\<close> turns the loop over
  the column into a map over the cells before the first empty one, and
  \<open>abspath_basename\<close> says that a printed path ends with the name of its
  file; the theorems about \<open>parser_main\<close> follow from these two and from the
  facts about the walk.

  \<^bold>\<open>What is proved.\<close>
  \<^item> Refinement: on the inputs the contract admits \<open>main\<close> writes what
    \<open>group\<close> returns (\<open>main_refines_spec\<close>); with integer sizes the groups are
    the only greedy partition of the table (\<open>main_groups_characterised\<close>).
  \<^item> The properties of section 8 of spec.md: order and coverage
    (\<open>main_preserves_order\<close>), the size bound (\<open>main_size_bound\<close>), an
    oversized row alone in its group (\<open>main_oversized_alone\<close>).
  \<^item> Errors: \<open>main\<close> raises exactly when a size is a string
    (\<open>main_raises_iff\<close>), and the groups closed before that row are on the
    disk when it does (\<open>main_partial_output\<close>).
  \<^item> The invariant of the loop in every reachable state
    (\<open>reachable_loop_inv\<close>; \<open>run_loop_reachable\<close> says that the states of
    \<open>run_loop\<close> are reachable); the full list is the first write of every
    run (\<open>main_full_list_first\<close>); the names are the group names in
    sequence (\<open>main_names_sequential\<close>); no group file is empty
    (\<open>main_groups_nonempty\<close>); there are at most as many groups as rows
    (\<open>main_group_count\<close>).
  \<^item> Optimality: with sizes that are not negative no grouping within the
    limit has fewer groups than the one \<open>main\<close> writes
    (\<open>main_fewest_groups\<close>, from \<open>greedy_optimal\<close>), and a larger limit
    never gives more groups (\<open>main_limit_monotone\<close>).
  \<^item> The names of the files: the count can be read back from its field
    (\<open>format_03d_roundtrip\<close>), which is three characters wide up to 999
    (\<open>format_03d_width\<close>); no two writes of a run share a name
    (\<open>main_names_distinct\<close>).
  \<^item> The parser: what a run prints (\<open>parser_main_output\<close>), every way it
    fails (\<open>parser_main_failures\<close>), that the default run prints the
    \<^verbatim>\<open>.fq.gz\<close> lines of the run with \<^verbatim>\<open>--scan_all\<close>
    (\<open>parser_default_filters_scan_all\<close>), that with \<^verbatim>\<open>--scan_all\<close> the
    lines are the files of the trees, each once (\<open>scan_all_lists_tree\<close>),
    that every line is an absolute path in normal form
    (\<open>parser_lines_absolute\<close>), that the lines of one folder are distinct
    (\<open>scan_tree_distinct\<close>), and that a folder named together with a
    directory inside it has the lines of that directory printed twice
    (\<open>parser_nested_folders_repeat\<close>).
  \<^item> Where the code and spec.md part: a limit that is not positive is no
    error for the code (\<open>main_nonpositive_limit\<close>, scenario D below), an
    empty size is no error either: it is \<^verbatim>\<open>nan\<close>, and no group is closed
    after it (\<open>main_nan_absorbs\<close>), and a run that raises leaves files
    behind (\<open>main_partial_output\<close>).
  \<^item> Bounds: a limit whose value in bytes is beyond the range of the
    doubles is infinite, and everything is one group
    (\<open>main_overflowing_limit\<close>).

  \<^bold>\<open>What is assumed.\<close> The theorems hold of the model, and the model
  takes these things from the libraries as given.
  \<^item> \<open>to_excel\<close> never fails. \<^verbatim>\<open>DataFrame.to_excel\<close> raises for a frame of
    more than 1,048,576 rows, without an engine for \<^verbatim>\<open>xlsx\<close>, and on an
    error of the file system; "\<open>main\<close> returns" and "the only exception
    is \<^verbatim>\<open>TypeError\<close>" are meant up to that.
  \<^item> The product of line 22 is the exact product, or an infinity beyond
    \<open>max_double\<close>. A double times a power of two is exact in IEEE
    arithmetic, and \<open>1024 ^ 4 = 2 ^ 40\<close>; \<open>scale_pow2\<close> states this and does
    not prove it.
  \<^item> A size is an integer, \<^verbatim>\<open>nan\<close> or text. Sizes that are fractions or
    infinite are outside the model, and a column of floats is modelled
    exactly only while its sums stay below \<open>2 ^ 53\<close>.
  \<^item> The environment of the parser answers \<^verbatim>\<open>os.path.exists\<close> and
    \<^verbatim>\<open>os.walk\<close> from one \<open>lookup\<close>, and does not relate the tree at a
    path to the trees at the paths below it: it admits more file systems
    than exist, which is sound for theorems about all environments. Where a
    theorem needs the relation (\<open>parser_nested_folders_repeat\<close>) it is a
    hypothesis.

  \<^bold>\<open>What is not modelled.\<close> \<^verbatim>\<open>argparse\<close>, the readers of \<^verbatim>\<open>pandas\<close>
  and the serialisation of \<^verbatim>\<open>to_excel\<close> are library code the scripts only
  call; the parsed options and the table read are inputs of \<open>main\<close> and
  \<open>parser_main\<close>. In the parser, a column of paths that holds numbers,
  symbolic links, directories that cannot be read, a file system that
  changes during the run, and the paths of Windows are outside the model.
\<close>

section \<open>The scenarios of the specification\<close>

text \<open>
  The four scenarios of section 8 of spec.md, run on \<open>main\<close>. They are
  instances of the theorems of theory \<open>Grouper\<close> and are kept as worked
  examples: each shows the whole disk after the run, names included.
\<close>

text \<open>
  Scenario A: sizes 5, 5, 5 and a limit of 10 bytes. The
  first two rows fill the first group to exactly the limit, and the third
  opens the second.
\<close>

lemma scenario_A:
  "main (bytes_args 10) [mk_row ''a'' 5, mk_row ''b'' 5, mk_row ''c'' 5] =
     Inr [(''result_full_list.xlsx'', [mk_row ''a'' 5, mk_row ''b'' 5, mk_row ''c'' 5]),
          (''result_group_001.xlsx'', [mk_row ''a'' 5, mk_row ''b'' 5]),
          (''result_group_002.xlsx'', [mk_row ''c'' 5])]"
  by (simp add: main_eval name_eval)

text \<open>
  Scenario B: one row of size 15 and a limit of 10 bytes.
  The row is written alone, in a group over the limit.
\<close>

lemma scenario_B:
  "main (bytes_args 10) [mk_row ''a'' 15] =
     Inr [(''result_full_list.xlsx'', [mk_row ''a'' 15]),
          (''result_group_001.xlsx'', [mk_row ''a'' 15])]"
  by (simp add: main_eval name_eval)

text \<open>
  Scenario C: sizes 3, 8, 2 and a limit of 10 bytes. The
  second row closes the first group, and the third joins the second.
\<close>

lemma scenario_C:
  "main (bytes_args 10) [mk_row ''a'' 3, mk_row ''b'' 8, mk_row ''c'' 2] =
     Inr [(''result_full_list.xlsx'', [mk_row ''a'' 3, mk_row ''b'' 8, mk_row ''c'' 2]),
          (''result_group_001.xlsx'', [mk_row ''a'' 3]),
          (''result_group_002.xlsx'', [mk_row ''b'' 8, mk_row ''c'' 2])]"
  by (simp add: main_eval name_eval)

text \<open>
  Scenario D: a limit of 0 bytes. spec.md asks for a
  configuration error and no group; \<open>main\<close> returns and writes every row as
  a group of its own.
\<close>

lemma scenario_D:
  "main (bytes_args 0) [mk_row ''a'' 5, mk_row ''b'' 5] =
     Inr [(''result_full_list.xlsx'', [mk_row ''a'' 5, mk_row ''b'' 5]),
          (''result_group_001.xlsx'', [mk_row ''a'' 5]),
          (''result_group_002.xlsx'', [mk_row ''b'' 5])]"
  by (simp add: main_eval name_eval)

end
